theory Spec2Isabelle
  imports Main
begin

section \<open>Strings and characters\<close>

text \<open>
  A JavaScript string is modelled as a \<^typ>\<open>string\<close>: a list of code units.  Only the ASCII
  letters, the ASCII digits and the characters \<open>-\<close>, \<open>/\<close>, \<open>.\<close> are ever inspected by the
  project manager; every other code unit is opaque to it.
\<close>

definition code :: "char \<Rightarrow> nat" where
  "code c = of_char c"

definition isLower :: "char \<Rightarrow> bool" where
  "isLower c = (97 \<le> code c \<and> code c \<le> 122)"

definition isUpper :: "char \<Rightarrow> bool" where
  "isUpper c = (65 \<le> code c \<and> code c \<le> 90)"

definition isLetter :: "char \<Rightarrow> bool" where
  "isLetter c = (isLower c \<or> isUpper c)"

definition isDigit :: "char \<Rightarrow> bool" where
  "isDigit c = (48 \<le> code c \<and> code c \<le> 57)"

text \<open>
  \<open>String.prototype.toLowerCase\<close> and \<open>toUpperCase\<close>.  The source applies them to captured
  groups of the language-code pattern only, which hold ASCII letters and digits; on those the
  Unicode case mapping is the ASCII one.
\<close>

definition toLowerChar :: "char \<Rightarrow> char" where
  "toLowerChar c = (if isUpper c then char_of (code c + 32) else c)"

definition toUpperChar :: "char \<Rightarrow> char" where
  "toUpperChar c = (if isLower c then char_of (code c - 32) else c)"

definition toLowerCase :: "string \<Rightarrow> string" where
  "toLowerCase s = map toLowerChar s"

definition toUpperCase :: "string \<Rightarrow> string" where
  "toUpperCase s = map toUpperChar s"

section \<open>The language-code pattern\<close>

text \<open>
  \<^verbatim>\<open>/^(?<language>[a-z]{2,3})(-(?<script>[A-Z][a-z]{3}))?(-(?<region>[A-Z]{2,3}|[0-9]{3}))?$/i\<close>

  The flag \<open>i\<close> makes both letter classes match every ASCII letter (without the flag \<open>u\<close> no
  other code unit folds onto an ASCII letter).  The matcher below explores the alternatives
  in the order a backtracking engine does: a greedy bounded repetition tries the longer
  count first, an optional group is tried before it is skipped, an alternation goes left to
  right.  An alternative is a pair of the text consumed and the text that remains.
\<close>

definition rep :: "(char \<Rightarrow> bool) \<Rightarrow> nat \<Rightarrow> string \<Rightarrow> (string \<times> string) list" where
  "rep P n s = (if n \<le> length s \<and> list_all P (take n s) then [(take n s, drop n s)] else [])"

definition language_alts :: "string \<Rightarrow> (string \<times> string) list" where
  "language_alts s = rep isLetter 3 s @ rep isLetter 2 s"

definition script_alts :: "string \<Rightarrow> (string option \<times> string) list" where
  "script_alts s =
     (case s of
        c # t \<Rightarrow> if c = CHR ''-'' then map (\<lambda>(g, r). (Some g, r)) (rep isLetter 4 t) else []
      | [] \<Rightarrow> [])
     @ [(None, s)]"

definition region_alts :: "string \<Rightarrow> (string option \<times> string) list" where
  "region_alts s =
     (case s of
        c # t \<Rightarrow> if c = CHR ''-''
                 then map (\<lambda>(g, r). (Some g, r))
                        (rep isLetter 3 t @ rep isLetter 2 t @ rep isDigit 3 t)
                 else []
      | [] \<Rightarrow> [])
     @ [(None, s)]"

record groups =
  language :: string
  script :: "string option"
  region :: "string option"

definition languageCodeRegex_runs :: "string \<Rightarrow> groups list" where
  "languageCodeRegex_runs s =
     concat (map (\<lambda>(l, s1).
       concat (map (\<lambda>(sc, s2).
         concat (map (\<lambda>(r, s3).
           if s3 = [] then [\<lparr>language = l, script = sc, region = r\<rparr>] else [])
         (region_alts s2)))
       (script_alts s1)))
     (language_alts s))"

text \<open>\<open>code.match(languageCodeRegex)\<close>: the groups of the first successful run, if any.\<close>

definition languageCodeRegex_match :: "string \<Rightarrow> groups option" where
  "languageCodeRegex_match s =
     (case languageCodeRegex_runs s of [] \<Rightarrow> None | g # _ \<Rightarrow> Some g)"

text \<open>\<open>languageCodeRegex.test(s)\<close>; the pattern has neither flag \<open>g\<close> nor \<open>y\<close>, so it is stateless.\<close>

definition languageCodeRegex_test :: "string \<Rightarrow> bool" where
  "languageCodeRegex_test s = (languageCodeRegex_match s \<noteq> None)"

section \<open>normalizeLanguageCode and validateLanguageCode\<close>

text \<open>
  A captured group is truthy when it is defined and not the empty string, as the source's
  \<open>if (script)\<close> and \<open>if (region)\<close> test.
\<close>

definition normalizeLanguageCode :: "string \<Rightarrow> string" where
  "normalizeLanguageCode c =
     (case languageCodeRegex_match c of
        None \<Rightarrow> c
      | Some g \<Rightarrow>
          toLowerCase (language g)
          @ (case script g of
               Some sc \<Rightarrow> if sc \<noteq> [] then ''-'' @ toUpperCase (take 1 sc) @ toLowerCase (drop 1 sc)
                          else []
             | None \<Rightarrow> [])
          @ (case region g of
               Some r \<Rightarrow> if r \<noteq> [] then ''-'' @ toUpperCase r else []
             | None \<Rightarrow> []))"

definition validateLanguageCode :: "string \<Rightarrow> bool" where
  "validateLanguageCode c = (c \<noteq> [] \<and> languageCodeRegex_test c)"

section \<open>The language tag of the specification\<close>

text \<open>
  The grammar as the specification words it: two or three letters, then optionally a hyphen
  and a script subtag of four letters, then optionally a hyphen and a region subtag of two or
  three letters or of three digits; letters are accepted in either case.  It is stated on the
  three components, independently of the matcher above.
\<close>

definition capitalize :: "string \<Rightarrow> string" where
  "capitalize s = toUpperCase (take 1 s) @ toLowerCase (drop 1 s)"

definition opt_subtag :: "string option \<Rightarrow> string" where
  "opt_subtag x = (case x of None \<Rightarrow> [] | Some t \<Rightarrow> CHR ''-'' # t)"

definition tag_of :: "groups \<Rightarrow> string" where
  "tag_of g = language g @ opt_subtag (script g) @ opt_subtag (region g)"

definition tag_grammar :: "groups \<Rightarrow> bool" where
  "tag_grammar g =
     ((length (language g) = 2 \<or> length (language g) = 3) \<and> list_all isLetter (language g)
      \<and> (case script g of None \<Rightarrow> True | Some sc \<Rightarrow> length sc = 4 \<and> list_all isLetter sc)
      \<and> (case region g of None \<Rightarrow> True
          | Some r \<Rightarrow> ((length r = 2 \<or> length r = 3) \<and> list_all isLetter r)
                     \<or> (length r = 3 \<and> list_all isDigit r)))"

section \<open>Node's \<open>path\<close> module, POSIX flavour\<close>

text \<open>
  The project manager computes on path strings with \<open>path.dirname\<close>, \<open>path.basename\<close>,
  \<open>path.extname\<close> and \<open>path.join\<close>.  They belong to the Node.js runtime, not to the
  repository; the functions below restate what \<open>path.posix\<close> computes, on every string,
  including the strings with repeated or trailing separators.
\<close>

definition sep :: char where
  "sep = CHR ''/''"

text \<open>
  The last component of a path: the trailing separators are skipped, then the characters
  back to the previous separator are taken.  It is empty when the path holds separators only.
\<close>

definition lastPart :: "string \<Rightarrow> string" where
  "lastPart p = rev (takeWhile (\<lambda>c. c \<noteq> sep) (dropWhile (\<lambda>c. c = sep) (rev p)))"

text \<open>\<open>path.basename(p)\<close>, without a suffix.\<close>

definition basename :: "string \<Rightarrow> string" where
  "basename p = lastPart p"

text \<open>
  \<open>path.basename(p, suffix)\<close>.  Node compares the suffix backwards against the last
  component.  The suffix is removed when the component ends with it and is longer than it;
  a component equal to the suffix is returned whole, except that a path equal to the suffix
  gives the empty string.  When the component is used up while it still agrees with the
  suffix, Node returns the path from the component's start to its very end, trailing
  separators included.
\<close>

definition endsWith :: "string \<Rightarrow> string \<Rightarrow> bool" where
  "endsWith s x = (length x \<le> length s \<and> drop (length s - length x) s = x)"

definition basename_ext :: "string \<Rightarrow> string \<Rightarrow> string" where
  "basename_ext p suffix =
     (if suffix \<noteq> [] \<and> length suffix \<le> length p then
        if suffix = p then []
        else
          let part = lastPart p in
          if part = [] then p
          else if endsWith part suffix then
            (if part = suffix then part else take (length part - length suffix) part)
          else if endsWith suffix part then part @ takeWhile (\<lambda>c. c = sep) (rev p)
          else part
      else basename p)"

text \<open>
  \<open>path.dirname(p)\<close>.  Node scans from the end down to index 1 for the separator in front
  of the last component and cuts there; \<open>r\<close> is the reversed text up to and including that
  separator.  Separators directly in front of it are kept, so \<open>a//b\<close> gives \<open>a/\<close>.
\<close>

definition dirname :: "string \<Rightarrow> string" where
  "dirname p =
     (if p = [] then ''.''
      else
        let hasRoot = (hd p = sep);
            r = dropWhile (\<lambda>c. c \<noteq> sep) (dropWhile (\<lambda>c. c = sep) (rev p))
        in if length r \<le> 1 then (if hasRoot then ''/'' else ''.'')
           else if hasRoot \<and> length r = 2 then ''//''
           else rev (tl r))"

text \<open>
  \<open>path.extname(p)\<close>: from the last dot of the last component to its end; empty when the
  component has no dot, when its only dot is its first character, and when it is \<open>..\<close>.
\<close>

definition extname :: "string \<Rightarrow> string" where
  "extname p =
     (let part = lastPart p in
      if CHR ''.'' \<notin> set part then []
      else
        let ext = CHR ''.'' # rev (takeWhile (\<lambda>c. c \<noteq> CHR ''.'') (rev part)) in
        if length ext = length part then []
        else if part = ''..'' then []
        else ext)"

text \<open>The parts of a path between separators; a part may be empty.\<close>

fun splitPath :: "string \<Rightarrow> string list" where
  "splitPath [] = [[]]"
| "splitPath (c # cs) =
     (if c = sep then [] # splitPath cs
      else (case splitPath cs of x # xs \<Rightarrow> (c # x) # xs | [] \<Rightarrow> [[c]]))"

text \<open>
  One step of Node's \<open>normalizeString\<close>: an empty part and \<open>.\<close> are dropped; \<open>..\<close> removes
  the part before it, unless there is none or it is \<open>..\<close> itself, in which case \<open>..\<close> is kept
  for a relative path and dropped for an absolute one; any other part is kept.
\<close>

definition normalizeStep :: "bool \<Rightarrow> string list \<Rightarrow> string \<Rightarrow> string list" where
  "normalizeStep allowAboveRoot res part =
     (if part = [] \<or> part = ''.'' then res
      else if part = ''..'' then
        (if res \<noteq> [] \<and> last res \<noteq> ''..'' then butlast res
         else if allowAboveRoot then res @ [''..'']
         else res)
      else res @ [part])"

definition normalizeString :: "bool \<Rightarrow> string list \<Rightarrow> string list" where
  "normalizeString allowAboveRoot parts = foldl (normalizeStep allowAboveRoot) [] parts"

fun joinWith :: "string \<Rightarrow> string list \<Rightarrow> string" where
  "joinWith s [] = []"
| "joinWith s [x] = x"
| "joinWith s (x # y # ys) = x @ s @ joinWith s (y # ys)"

text \<open>\<open>path.normalize(p)\<close>.\<close>

definition normalizePath :: "string \<Rightarrow> string" where
  "normalizePath p =
     (if p = [] then ''.''
      else
        let isAbsolute = (hd p = sep);
            trailingSeparator = (last p = sep);
            body = joinWith ''/'' (normalizeString (\<not> isAbsolute) (splitPath p))
        in if body = [] then (if isAbsolute then ''/'' else if trailingSeparator then ''./'' else ''.'')
           else (if isAbsolute then ''/'' else []) @ body @ (if trailingSeparator then ''/'' else []))"

text \<open>\<open>path.join(...args)\<close>: the non-empty arguments, separated by \<open>/\<close>, normalized.\<close>

definition join :: "string list \<Rightarrow> string" where
  "join args =
     (let joined = filter (\<lambda>a. a \<noteq> []) args
      in if joined = [] then ''.'' else normalizePath (joinWith ''/'' joined))"

section \<open>The host: file system and collation\<close>

text \<open>
  The project manager reaches the file system through \<open>fs.readdirSync\<close>, \<open>fs.existsSync\<close>
  and \<open>fs.mkdirSync\<close>, and orders its result with \<open>String.prototype.localeCompare\<close>.  They
  are capabilities of the host, so the model takes them as a parameter: a record of
  functions over a state \<^typ>\<open>'s\<close> of the file system.  A call that throws returns \<open>Inl\<close>.
  \<open>localeCompare\<close> stands for \<open>a.localeCompare(b, undefined, {sensitivity: "base"})\<close>, the
  collator of the host's default locale.
\<close>

datatype SystemError = SystemError string

datatype DirentType = RegularFile | Directory | OtherType

record Dirent =
  name :: string
  dtype :: DirentType

definition isFile :: "Dirent \<Rightarrow> bool" where
  "isFile e = (dtype e = RegularFile)"

definition isDirectory :: "Dirent \<Rightarrow> bool" where
  "isDirectory e = (dtype e = Directory)"

record 's host =
  readdirSync :: "'s \<Rightarrow> string \<Rightarrow> SystemError + Dirent list"
  existsSync :: "'s \<Rightarrow> string \<Rightarrow> bool"
  mkdirSync :: "'s \<Rightarrow> string \<Rightarrow> SystemError + 's"
  localeCompare :: "string \<Rightarrow> string \<Rightarrow> int"

section \<open>detectProjectStructure\<close>

datatype ProjectStructureType = FolderBased | FileBased | Unknown

record ProjectStructureInfo =
  type :: ProjectStructureType
  basePath :: string
  sourceLanguage :: "string option"

definition detectProjectStructure :: "string \<Rightarrow> ProjectStructureInfo" where
  "detectProjectStructure sourceFilePath =
     (let sourceDir = dirname sourceFilePath;
          sourceFileName = basename_ext sourceFilePath ''.json'';
          parentDirName = basename sourceDir
      in if languageCodeRegex_test parentDirName then
           \<lparr>type = FolderBased, basePath = dirname sourceDir, sourceLanguage = Some parentDirName\<rparr>
         else if languageCodeRegex_test sourceFileName then
           \<lparr>type = FileBased, basePath = sourceDir, sourceLanguage = Some sourceFileName\<rparr>
         else
           \<lparr>type = Unknown, basePath = sourceDir, sourceLanguage = None\<rparr>)"

section \<open>detectLanguagesFromProject\<close>

text \<open>
  A JavaScript \<open>Set\<close> of strings keeps its members in insertion order: \<open>add\<close> appends a string
  that is not yet a member, \<open>delete\<close> removes the member equal to its argument, and
  \<open>Array.from\<close> lists the members in that order.
\<close>

definition set_add :: "string \<Rightarrow> string list \<Rightarrow> string list" where
  "set_add x xs = (if x \<in> set xs then xs else xs @ [x])"

definition set_delete :: "string \<Rightarrow> string list \<Rightarrow> string list" where
  "set_delete x xs = filter (\<lambda>y. y \<noteq> x) xs"

text \<open>
  \<open>Array.prototype.sort(comparefn)\<close> is a stable sort; for a consistent comparator its result
  is the one a stable insertion sort gives.  \<open>a\<close> goes before \<open>b\<close> when \<open>comparefn(a, b) \<le> 0\<close>.
\<close>

fun insert_by :: "('a \<Rightarrow> 'a \<Rightarrow> int) \<Rightarrow> 'a \<Rightarrow> 'a list \<Rightarrow> 'a list" where
  "insert_by cmp x [] = [x]"
| "insert_by cmp x (y # ys) = (if cmp x y \<le> 0 then x # y # ys else y # insert_by cmp x ys)"

definition sort_by :: "('a \<Rightarrow> 'a \<Rightarrow> int) \<Rightarrow> 'a list \<Rightarrow> 'a list" where
  "sort_by cmp xs = foldr (insert_by cmp) xs []"

text \<open>The two loops over the directory entries.\<close>

definition scanDirectories :: "Dirent list \<Rightarrow> string list" where
  "scanDirectories entries =
     foldl (\<lambda>languageCodes entry.
              if isDirectory entry \<and> languageCodeRegex_test (name entry)
              then set_add (name entry) languageCodes else languageCodes)
       [] entries"

definition scanFiles :: "Dirent list \<Rightarrow> string list" where
  "scanFiles entries =
     foldl (\<lambda>languageCodes entry.
              if isFile entry \<and> endsWith (name entry) ''.json'' then
                (let fileName = basename_ext (name entry) ''.json''
                 in if languageCodeRegex_test fileName then set_add fileName languageCodes
                    else languageCodes)
              else languageCodes)
       [] entries"

text \<open>
  The scan with its \<open>try\<close>/\<open>catch\<close>: a failing \<open>readdirSync\<close> leaves the set empty and writes
  one warning.  The result pairs the set with the warnings written to the console.
\<close>

type_synonym warning = "string \<times> SystemError"

definition scanProject :: "'s host \<Rightarrow> 's \<Rightarrow> ProjectStructureInfo \<Rightarrow> string list \<times> warning list" where
  "scanProject h s structureInfo =
     (case type structureInfo of
        FolderBased \<Rightarrow>
          (case readdirSync h s (basePath structureInfo) of
             Inr entries \<Rightarrow> (scanDirectories entries, [])
           | Inl error \<Rightarrow> ([], [(''Error scanning for language directories:'', error)]))
      | FileBased \<Rightarrow>
          (case readdirSync h s (basePath structureInfo) of
             Inr entries \<Rightarrow> (scanFiles entries, [])
           | Inl error \<Rightarrow> ([], [(''Error scanning for language files:'', error)]))
      | Unknown \<Rightarrow> ([], []))"

definition detectLanguagesFromProject :: "'s host \<Rightarrow> 's \<Rightarrow> string \<Rightarrow> string list \<times> warning list" where
  "detectLanguagesFromProject h s sourceFilePath =
     (let structureInfo = detectProjectStructure sourceFilePath;
          (scanned, warnings) = scanProject h s structureInfo;
          languageCodes =
            (case sourceLanguage structureInfo of
               Some l \<Rightarrow> if l \<noteq> [] then set_delete l scanned else scanned
             | None \<Rightarrow> scanned)
      in (sort_by (localeCompare h) languageCodes, warnings))"

section \<open>getUniqueFilePath and generateTargetFilePath\<close>

text \<open>
  The counter is a JavaScript number.  It is an exact integer up to \<open>2^53\<close>, where \<open>counter++\<close>
  stops changing it; below \<open>10^21\<close> the template literal prints it in plain decimal.
\<close>

definition increment :: "int \<Rightarrow> int" where
  "increment counter = (if counter < 2 ^ 53 then counter + 1 else counter)"

fun digits :: "nat \<Rightarrow> string" where
  "digits n =
     (if n < 10 then [char_of (48 + n)]
      else digits (n div 10) @ [char_of (48 + n mod 10)])"

definition numberToString :: "int \<Rightarrow> string" where
  "numberToString n = (if n < 0 then CHR ''-'' # digits (nat (- n)) else digits (nat n))"

text \<open>
  The \<open>do\<close>/\<open>while\<close> loop.  It ends only when it meets a path that does not exist, so it is a
  partial function: \<open>None\<close> says that the loop runs forever.
\<close>

partial_function (option) probe :: "'s host \<Rightarrow> 's \<Rightarrow> string \<Rightarrow> string \<Rightarrow> string \<Rightarrow> int \<Rightarrow> string option" where
  "probe h s dir baseName ext counter =
     (let uniquePath = join [dir, baseName @ '' ('' @ numberToString counter @ '')'' @ ext]
      in if existsSync h s uniquePath then probe h s dir baseName ext (increment counter)
         else Some uniquePath)"

declare probe.simps [code]

definition getUniqueFilePath :: "'s host \<Rightarrow> 's \<Rightarrow> string \<Rightarrow> string option" where
  "getUniqueFilePath h s filePath =
     (if \<not> existsSync h s filePath then Some filePath
      else
        let dir = dirname filePath;
            ext = extname filePath;
            baseName = basename_ext filePath ext
        in probe h s dir baseName ext 1)"

text \<open>The path each branch of \<open>generateTargetFilePath\<close> hands to \<open>getUniqueFilePath\<close>.\<close>

definition targetFilePath :: "string \<Rightarrow> string \<Rightarrow> string" where
  "targetFilePath sourceFilePath targetLanguage =
     (let structureInfo = detectProjectStructure sourceFilePath;
          sourceFileName = basename_ext sourceFilePath ''.json''
      in case type structureInfo of
           FolderBased \<Rightarrow>
             (let targetDir = join [basePath structureInfo, targetLanguage]
              in join [targetDir, sourceFileName @ ''.json''])
         | FileBased \<Rightarrow> join [basePath structureInfo, targetLanguage @ ''.json'']
         | Unknown \<Rightarrow>
             (let sourceDir = dirname sourceFilePath
              in join [sourceDir, sourceFileName @ ''.'' @ targetLanguage @ ''.json'']))"

text \<open>
  The write of the folder-based branch: the target directory is created when \<open>existsSync\<close>
  does not find it.  The other branches leave the file system as it is.
\<close>

definition ensureTargetDir :: "'s host \<Rightarrow> 's \<Rightarrow> string \<Rightarrow> string \<Rightarrow> SystemError + 's" where
  "ensureTargetDir h s sourceFilePath targetLanguage =
     (let structureInfo = detectProjectStructure sourceFilePath
      in case type structureInfo of
           FolderBased \<Rightarrow>
             (let targetDir = join [basePath structureInfo, targetLanguage]
              in if \<not> existsSync h s targetDir then mkdirSync h s targetDir else Inr s)
         | _ \<Rightarrow> Inr s)"

text \<open>
  The outcome of \<open>generateTargetFilePath\<close>: \<open>None\<close> when the loop of \<open>getUniqueFilePath\<close>
  never ends, \<open>Some (Inl e)\<close> when \<open>mkdirSync\<close> throws \<open>e\<close>, and otherwise the path returned
  together with the state of the file system.
\<close>

definition generateTargetFilePath ::
  "'s host \<Rightarrow> 's \<Rightarrow> string \<Rightarrow> string \<Rightarrow> (SystemError + string \<times> 's) option" where
  "generateTargetFilePath h s sourceFilePath targetLanguage =
     (case ensureTargetDir h s sourceFilePath targetLanguage of
        Inl error \<Rightarrow> Some (Inl error)
      | Inr s' \<Rightarrow>
          map_option (\<lambda>uniquePath. Inr (uniquePath, s'))
            (getUniqueFilePath h s' (targetFilePath sourceFilePath targetLanguage)))"

section \<open>A host to run the functions on\<close>

text \<open>
  A file system given by a table of the paths that exist, with the type of each, and a
  comparator that orders strings by their lower-case code units: on the letters, digits and
  hyphens of language tags this is the order of the root collation at base sensitivity.
\<close>

type_synonym table = "(string \<times> DirentType) list"

definition table_readdir :: "table \<Rightarrow> string \<Rightarrow> SystemError + Dirent list" where
  "table_readdir t d =
     (if (d, Directory) \<in> set t
      then Inr (map (\<lambda>(q, k). \<lparr>name = basename q, dtype = k\<rparr>)
                 (filter (\<lambda>(q, k). q \<noteq> d \<and> dirname q = d) t))
      else Inl (SystemError ''ENOENT''))"

definition table_exists :: "table \<Rightarrow> string \<Rightarrow> bool" where
  "table_exists t p = (p \<in> set (map fst t))"

definition table_mkdir :: "table \<Rightarrow> string \<Rightarrow> SystemError + table" where
  "table_mkdir t p = Inr (t @ [(p, Directory)])"

fun compareCodes :: "nat list \<Rightarrow> nat list \<Rightarrow> int" where
  "compareCodes [] [] = 0"
| "compareCodes [] (y # ys) = - 1"
| "compareCodes (x # xs) [] = 1"
| "compareCodes (x # xs) (y # ys) =
     (if x < y then - 1 else if y < x then 1 else compareCodes xs ys)"

definition compareBase :: "string \<Rightarrow> string \<Rightarrow> int" where
  "compareBase a b = compareCodes (map code (toLowerCase a)) (map code (toLowerCase b))"

definition table_host :: "table host" where
  "table_host = \<lparr>readdirSync = table_readdir, existsSync = table_exists,
                 mkdirSync = table_mkdir, localeCompare = compareBase\<rparr>"

section \<open>Notions used to state the properties\<close>

text \<open>
  A comparator is consistent when "goes before or ties" is total and transitive; this is what
  \<open>Array.prototype.sort\<close> asks of its argument to give a defined order.
\<close>

definition consistent :: "('a \<Rightarrow> 'a \<Rightarrow> int) \<Rightarrow> bool" where
  "consistent cmp =
     ((\<forall>a b. cmp a b \<le> 0 \<or> cmp b a \<le> 0)
      \<and> (\<forall>a b c. cmp a b \<le> 0 \<longrightarrow> cmp b c \<le> 0 \<longrightarrow> cmp a c \<le> 0))"

text \<open>File systems used as examples.\<close>

definition example_locales :: table where
  "example_locales =
     [(''locales'', Directory),
      (''locales/en'', Directory), (''locales/EN'', Directory),
      (''locales/fr'', Directory), (''locales/de'', Directory),
      (''locales/README.md'', RegularFile),
      (''locales/en/common.json'', RegularFile)]"

definition example_i18n :: table where
  "example_i18n =
     [(''i18n'', Directory),
      (''i18n/EN.json'', RegularFile), (''i18n/RU.json'', RegularFile),
      (''i18n/Fr.json'', RegularFile), (''i18n/de.json'', RegularFile)]"

definition example_collision :: table where
  "example_collision =
     [(''i18n'', Directory),
      (''i18n/en.json'', RegularFile), (''i18n/fr.json'', RegularFile),
      (''i18n/fr (1).json'', RegularFile)]"

text \<open>
  The path probed for the counter \<open>n\<close>: the directory of the file, and its name with \<open> (n)\<close>
  put between the name without extension and the extension.
\<close>

definition candidate :: "string \<Rightarrow> int \<Rightarrow> string" where
  "candidate filePath n =
     join [dirname filePath,
           basename_ext filePath (extname filePath) @ '' ('' @ numberToString n @ '')''
           @ extname filePath]"

text \<open>
  A segment is a path component that \<open>path.normalize\<close> keeps as it is: not empty, without a
  separator, and neither \<open>.\<close> nor \<open>..\<close>.
\<close>

definition isSegment :: "string \<Rightarrow> bool" where
  "isSegment f = (f \<noteq> [] \<and> sep \<notin> set f \<and> f \<noteq> ''.'' \<and> f \<noteq> ''..'')"

text \<open>The root prefix of a path: \<open>/\<close> for an absolute path, nothing for a relative one.\<close>

definition root :: "string \<Rightarrow> string" where
  "root p = (if hd p = sep then ''/'' else [])"

text \<open>The parts that \<open>path.normalize\<close> keeps of a path.\<close>

definition normalParts :: "string \<Rightarrow> string list" where
  "normalParts p = normalizeString (hd p \<noteq> sep) (splitPath p)"



text \<open>
  The target path as the specification gives it, from the extension and the stem of the source
  file: \<open>basePath/targetLanguage/(stem + extension)\<close> for a folder-based structure,
  \<open>basePath/targetLanguage + extension\<close> for a file-based one, and
  \<open>basePath/stem.targetLanguage + extension\<close> for an unknown one.
\<close>

definition schemePath :: "string \<Rightarrow> string \<Rightarrow> string" where
  "schemePath sourceFilePath targetLanguage =
     (let info = detectProjectStructure sourceFilePath;
          sourceExtension = extname sourceFilePath;
          sourceStem = basename_ext sourceFilePath sourceExtension
      in case type info of
           FolderBased \<Rightarrow> join [join [basePath info, targetLanguage], sourceStem @ sourceExtension]
         | FileBased \<Rightarrow> join [basePath info, targetLanguage @ sourceExtension]
         | Unknown \<Rightarrow> join [basePath info, sourceStem @ ''.'' @ targetLanguage @ sourceExtension])"

section \<open>Properties of the language-code pattern\<close>

lemma not_letter_hyphen [simp]: "\<not> isLetter CHR ''-''" "\<not> isDigit CHR ''-''"
  by (simp_all add: isLetter_def isLower_def isUpper_def isDigit_def code_def)

lemma digit_not_letter: "isDigit c \<Longrightarrow> \<not> isLetter c"
  by (auto simp: isLetter_def isLower_def isUpper_def isDigit_def)

lemma in_rep: "(a, b) \<in> set (rep P n s) \<longleftrightarrow> length a = n \<and> list_all P a \<and> s = a @ b"
  by (auto simp: rep_def)

lemma rep_append: "length a = n \<Longrightarrow> list_all P a \<Longrightarrow> rep P n (a @ b) = [(a, b)]"
  by (simp add: rep_def)

lemma rep_short: "length s < n \<Longrightarrow> rep P n s = []"
  by (simp add: rep_def)

lemma rep_bad: "i < n \<Longrightarrow> i < length s \<Longrightarrow> \<not> P (s ! i) \<Longrightarrow> rep P n s = []"
  by (auto simp: rep_def list_all_length)

lemma match_sound:
  assumes "languageCodeRegex_match s = Some g"
  shows "tag_grammar g \<and> s = tag_of g"
proof -
  from assms have "g \<in> set (languageCodeRegex_runs s)"
    by (auto simp: languageCodeRegex_match_def split: list.splits)
  then show ?thesis
    unfolding languageCodeRegex_runs_def language_alts_def script_alts_def region_alts_def
    by (auto simp: in_rep tag_grammar_def tag_of_def opt_subtag_def split: list.splits if_splits)
qed


lemma language_alts_head:
  assumes "length l = 2 \<or> length l = 3" "list_all isLetter l"
    and "rest = [] \<or> hd rest = CHR ''-''"
  shows "\<exists>more. language_alts (l @ rest) = (l, rest) # more"
proof (cases "length l = 3")
  case True
  with assms show ?thesis by (simp add: language_alts_def rep_append)
next
  case False
  with assms have len: "length l = 2" by simp
  have "rep isLetter 3 (l @ rest) = []"
  proof (cases rest)
    case Nil
    with len show ?thesis by (simp add: rep_short)
  next
    case (Cons c t)
    with assms have "(l @ rest) ! 2 = CHR ''-''" using len by (simp add: nth_append)
    then show ?thesis using len Cons by (intro rep_bad [of 2]) simp_all
  qed
  with len assms show ?thesis by (simp add: language_alts_def rep_append)
qed

lemma script_alts_Some:
  assumes "length x = 4" "list_all isLetter x"
  shows "\<exists>more. script_alts (CHR ''-'' # x @ rest) = (Some x, rest) # more"
  using assms by (simp add: script_alts_def rep_append)

lemma script_alts_None:
  assumes "rest = [] \<or> (\<exists>y. rest = CHR ''-'' # y \<and> length y \<le> 3)"
  shows "script_alts rest = [(None, rest)]"
  using assms by (auto simp: script_alts_def rep_short)

lemma region_alts_Some:
  assumes "((length y = 2 \<or> length y = 3) \<and> list_all isLetter y) \<or> (length y = 3 \<and> list_all isDigit y)"
  shows "\<exists>more. region_alts (CHR ''-'' # y) = (Some y, []) # more"
proof -
  consider (l3) "length y = 3" "list_all isLetter y"
    | (l2) "length y = 2" "list_all isLetter y"
    | (d3) "length y = 3" "list_all isDigit y" "\<not> list_all isLetter y"
    using assms by blast
  then show ?thesis
  proof cases
    case l3
    then show ?thesis using rep_append [of y 3 isLetter "[]"] by (simp add: region_alts_def)
  next
    case l2
    then show ?thesis using rep_append [of y 2 isLetter "[]"] by (simp add: region_alts_def rep_short)
  next
    case d3
    then have "\<not> isLetter (y ! 0)" by (simp add: list_all_length digit_not_letter)
    with d3 have "rep isLetter 3 y = []" "rep isLetter 2 y = []"
      by (auto intro: rep_bad [of 0])
    with d3 show ?thesis using rep_append [of y 3 isDigit "[]"] by (simp add: region_alts_def)
  qed
qed

lemma region_alts_None: "region_alts [] = [(None, [])]"
  by (simp add: region_alts_def)

lemma match_complete:
  assumes "tag_grammar g"
  shows "languageCodeRegex_match (tag_of g) = Some g"
proof -
  obtain l sc r where g: "g = \<lparr>language = l, script = sc, region = r\<rparr>"
    by (cases g) simp
  let ?rr = "opt_subtag r"
  let ?rs = "opt_subtag sc @ ?rr"
  have r_alts: "\<exists>more. region_alts ?rr = (r, []) # more"
  proof (cases r)
    case None
    then show ?thesis by (simp add: opt_subtag_def region_alts_None)
  next
    case (Some y)
    with assms g show ?thesis
      using region_alts_Some [of y] by (simp add: opt_subtag_def tag_grammar_def)
  qed
  have s_alts: "\<exists>more. script_alts ?rs = (sc, ?rr) # more"
  proof (cases sc)
    case None
    have "?rr = [] \<or> (\<exists>y. ?rr = CHR ''-'' # y \<and> length y \<le> 3)"
      using assms g by (cases r) (auto simp: opt_subtag_def tag_grammar_def)
    then show ?thesis using None script_alts_None [of ?rr] by (simp add: opt_subtag_def)
  next
    case (Some x)
    with assms g show ?thesis
      using script_alts_Some [of x ?rr] by (simp add: opt_subtag_def tag_grammar_def)
  qed
  have "?rs = [] \<or> hd ?rs = CHR ''-''"
    by (cases sc; cases r) (simp_all add: opt_subtag_def)
  with assms g have l_alts: "\<exists>more. language_alts (l @ ?rs) = (l, ?rs) # more"
    by (intro language_alts_head) (simp_all add: tag_grammar_def)
  from l_alts s_alts r_alts obtain m1 m2 m3 where
    "language_alts (l @ ?rs) = (l, ?rs) # m1" "script_alts ?rs = (sc, ?rr) # m2"
    "region_alts ?rr = (r, []) # m3"
    by blast
  then have "\<exists>more. languageCodeRegex_runs (l @ ?rs) = g # more"
    by (simp add: languageCodeRegex_runs_def g)
  then show ?thesis
    by (auto simp: languageCodeRegex_match_def tag_of_def g)
qed

lemma toLowerChar_letter: "isLetter c \<Longrightarrow> isLower (toLowerChar c)"
  by (auto simp: toLowerChar_def isLetter_def isLower_def isUpper_def code_def)

lemma toUpperChar_letter: "isLetter c \<Longrightarrow> isUpper (toUpperChar c)"
  by (auto simp: toUpperChar_def isLetter_def isLower_def isUpper_def code_def)

lemma toUpperChar_digit: "isDigit c \<Longrightarrow> toUpperChar c = c"
  by (auto simp: toUpperChar_def isLower_def isDigit_def)

lemma toLowerChar_lower: "isLower c \<Longrightarrow> toLowerChar c = c"
  by (auto simp: toLowerChar_def isLower_def isUpper_def)

lemma toUpperChar_upper: "isUpper c \<Longrightarrow> toUpperChar c = c"
  by (auto simp: toUpperChar_def isLower_def isUpper_def)


lemma toLowerCase_idem: "list_all isLetter s \<Longrightarrow> toLowerCase (toLowerCase s) = toLowerCase s"
  by (induction s) (simp_all add: toLowerCase_def toLowerChar_letter toLowerChar_lower)

lemma toUpperCase_idem:
  "list_all isLetter s \<or> list_all isDigit s \<Longrightarrow> toUpperCase (toUpperCase s) = toUpperCase s"
  by (induction s) (auto simp: toUpperCase_def toUpperChar_letter toUpperChar_upper toUpperChar_digit)

lemma toLowerCase_letters: "list_all isLetter s \<Longrightarrow> list_all isLetter (toLowerCase s)"
  by (induction s) (simp_all add: toLowerCase_def toLowerChar_letter isLetter_def [of "toLowerChar _"])

lemma toUpperCase_letters: "list_all isLetter s \<Longrightarrow> list_all isLetter (toUpperCase s)"
  by (induction s) (simp_all add: toUpperCase_def toUpperChar_letter isLetter_def [of "toUpperChar _"])

lemma toUpperCase_digits: "list_all isDigit s \<Longrightarrow> toUpperCase s = s"
  by (induction s) (simp_all add: toUpperCase_def toUpperChar_digit)

lemma length_toLowerCase [simp]: "length (toLowerCase s) = length s"
  by (simp add: toLowerCase_def)

lemma length_toUpperCase [simp]: "length (toUpperCase s) = length s"
  by (simp add: toUpperCase_def)

lemma length_capitalize [simp]: "length (capitalize s) = length s"
  by (simp add: capitalize_def)

lemma capitalize_letters: "list_all isLetter s \<Longrightarrow> list_all isLetter (capitalize s)"
  by (cases s) (simp_all add: capitalize_def toUpperCase_letters toLowerCase_letters)

lemma capitalize_idem: "list_all isLetter s \<Longrightarrow> capitalize (capitalize s) = capitalize s"
proof (cases s)
  case Nil
  then show ?thesis by (simp add: capitalize_def toUpperCase_def toLowerCase_def)
next
  case (Cons c t)
  assume "list_all isLetter s"
  with Cons have c: "list_all isLetter [c]" and t: "list_all isLetter t" by simp_all
  have "capitalize s = toUpperCase [c] @ toLowerCase t"
    using Cons by (simp add: capitalize_def)
  moreover have "capitalize (toUpperCase [c] @ toLowerCase t)
      = toUpperCase (toUpperCase [c]) @ toLowerCase (toLowerCase t)"
    by (simp add: capitalize_def toUpperCase_def)
  ultimately show ?thesis
    using toUpperCase_idem [of "[c]"] toLowerCase_idem [OF t] c by simp
qed

text \<open>The canonical form of a tag, component by component.\<close>

lemma normalize_tag_of:
  assumes "tag_grammar g"
  shows "normalizeLanguageCode (tag_of g)
         = tag_of \<lparr>language = toLowerCase (language g),
                   script = map_option capitalize (script g),
                   region = map_option toUpperCase (region g)\<rparr>"
proof -
  have sc: "script g = Some x \<Longrightarrow> x \<noteq> []" for x
    using assms by (auto simp: tag_grammar_def)
  have r: "region g = Some y \<Longrightarrow> y \<noteq> []" for y
    using assms by (auto simp: tag_grammar_def)
  have "normalizeLanguageCode (tag_of g)
      = toLowerCase (language g)
        @ (case script g of
             Some sc \<Rightarrow> if sc \<noteq> [] then ''-'' @ toUpperCase (take 1 sc) @ toLowerCase (drop 1 sc)
                        else []
           | None \<Rightarrow> [])
        @ (case region g of
             Some r \<Rightarrow> if r \<noteq> [] then ''-'' @ toUpperCase r else []
           | None \<Rightarrow> [])"
    unfolding normalizeLanguageCode_def match_complete [OF assms] by simp
  then show ?thesis
    using sc r by (simp add: tag_of_def opt_subtag_def capitalize_def split: option.splits)
qed

lemma canonical_grammar:
  assumes "tag_grammar g"
  shows "tag_grammar \<lparr>language = toLowerCase (language g),
                      script = map_option capitalize (script g),
                      region = map_option toUpperCase (region g)\<rparr>"
  using assms
  by (auto simp: tag_grammar_def toLowerCase_letters capitalize_letters toUpperCase_letters
      toUpperCase_digits split: option.splits)

lemma test_iff_grammar: "languageCodeRegex_test s \<longleftrightarrow> (\<exists>g. tag_grammar g \<and> s = tag_of g)"
  using match_sound match_complete by (fastforce simp: languageCodeRegex_test_def)

section \<open>normalizeLanguageCode\<close>

text \<open>
  Claim C6.  On a string of the grammar, \<open>normalizeLanguageCode\<close> returns the canonical form:
  the primary language in lower case, the script subtag (when present) with its first letter
  in upper case and the others in lower case, the region subtag (when present) in upper case.
  On a string that is not of the grammar it returns the string unchanged.  The function is
  total: no input makes it raise.
\<close>

theorem normalizeLanguageCode_canonical:
  "(tag_grammar g \<longrightarrow>
      normalizeLanguageCode (tag_of g)
      = toLowerCase (language g) @ opt_subtag (map_option capitalize (script g))
        @ opt_subtag (map_option toUpperCase (region g)))
   \<and> ((\<nexists>g'. tag_grammar g' \<and> s = tag_of g') \<longrightarrow> normalizeLanguageCode s = s)"
proof (intro conjI impI)
  assume "tag_grammar g"
  then show "normalizeLanguageCode (tag_of g)
      = toLowerCase (language g) @ opt_subtag (map_option capitalize (script g))
        @ opt_subtag (map_option toUpperCase (region g))"
    using normalize_tag_of [of g] by (simp add: tag_of_def [of "\<lparr>language = _, script = _, region = _\<rparr>"])
next
  assume "\<nexists>g'. tag_grammar g' \<and> s = tag_of g'"
  then have "\<not> languageCodeRegex_test s"
    by (simp add: test_iff_grammar)
  then have "languageCodeRegex_match s = None"
    by (simp add: languageCodeRegex_test_def)
  then show "normalizeLanguageCode s = s"
    by (simp add: normalizeLanguageCode_def)
qed

theorem normalizeLanguageCode_canonical_witness:
  "tag_grammar \<lparr>language = ''ZH'', script = Some ''hans'', region = Some ''CN''\<rparr>
   \<and> normalizeLanguageCode ''ZH-hans-CN'' = ''zh-Hans-CN''
   \<and> (\<nexists>g'. tag_grammar g' \<and> ''invalid-code'' = tag_of g')
   \<and> normalizeLanguageCode ''invalid-code'' = ''invalid-code''"
proof -
  let ?g = "\<lparr>language = ''ZH'', script = Some ''hans'', region = Some ''CN''\<rparr>"
  have g: "tag_grammar ?g"
    by (simp add: tag_grammar_def isLetter_def isLower_def isUpper_def code_def)
  have "\<not> languageCodeRegex_test ''invalid-code''"
    by code_simp
  then have n: "\<nexists>g'. tag_grammar g' \<and> ''invalid-code'' = tag_of g'"
    by (simp add: test_iff_grammar)
  have t: "tag_of ?g = ''ZH-hans-CN''"
    by (simp add: tag_of_def opt_subtag_def)
  have c: "toLowerCase ''ZH'' = ''zh''" "capitalize ''hans'' = ''Hans''" "toUpperCase ''CN'' = ''CN''"
    by code_simp+
  from normalizeLanguageCode_canonical [of ?g "''invalid-code''"] g n t c
  show ?thesis by (simp add: opt_subtag_def)
qed

text \<open>
  Claim C7.  On every tag accepted by \<open>validateLanguageCode\<close>, normalizing twice gives what
  normalizing once gives.
\<close>

theorem normalizeLanguageCode_idempotent:
  assumes "validateLanguageCode t"
  shows "normalizeLanguageCode (normalizeLanguageCode t) = normalizeLanguageCode t"
proof -
  from assms obtain g where g: "tag_grammar g" and t: "t = tag_of g"
    using test_iff_grammar [of t] by (auto simp: validateLanguageCode_def)
  let ?c = "\<lparr>language = toLowerCase (language g), script = map_option capitalize (script g),
             region = map_option toUpperCase (region g)\<rparr>"
  have c: "tag_grammar ?c" by (rule canonical_grammar [OF g])
  have "normalizeLanguageCode (tag_of ?c) = tag_of ?c"
  proof -
    have "toLowerCase (toLowerCase (language g)) = toLowerCase (language g)"
      using g by (simp add: toLowerCase_idem tag_grammar_def)
    moreover have "map_option capitalize (map_option capitalize (script g))
        = map_option capitalize (script g)"
      using g by (cases "script g") (simp_all add: capitalize_idem tag_grammar_def)
    moreover have "map_option toUpperCase (map_option toUpperCase (region g))
        = map_option toUpperCase (region g)"
      using g by (cases "region g") (auto simp: toUpperCase_idem tag_grammar_def)
    ultimately show ?thesis
      by (simp add: normalize_tag_of [OF c])
  qed
  then show ?thesis
    by (simp add: t normalize_tag_of [OF g])
qed

theorem normalizeLanguageCode_idempotent_witness:
  "validateLanguageCode ''ZH-hans-CN''
   \<and> normalizeLanguageCode (normalizeLanguageCode ''ZH-hans-CN'') = normalizeLanguageCode ''ZH-hans-CN''
   \<and> normalizeLanguageCode ''ZH-hans-CN'' \<noteq> ''ZH-hans-CN''"
proof -
  have v: "validateLanguageCode ''ZH-hans-CN''" by code_simp
  have n: "normalizeLanguageCode ''ZH-hans-CN'' \<noteq> ''ZH-hans-CN''" by code_simp
  from normalizeLanguageCode_idempotent [OF v] v n show ?thesis by simp
qed

text \<open>
  Claim C3.  When the name of the directory that holds the source file matches the
  language-code pattern, the structure is folder-based whatever the file is called, even if
  its stem matches the pattern too; the base path is the directory above that directory, and
  the source language is the directory's name as written, with no change of case.
\<close>

theorem detectProjectStructure_folder_first:
  assumes "languageCodeRegex_test (basename (dirname sourceFilePath))"
  shows "detectProjectStructure sourceFilePath
         = \<lparr>type = FolderBased,
            basePath = dirname (dirname sourceFilePath),
            sourceLanguage = Some (basename (dirname sourceFilePath))\<rparr>"
  using assms by (simp add: detectProjectStructure_def Let_def)

theorem detectProjectStructure_folder_first_witness:
  "languageCodeRegex_test (basename (dirname ''locales/en/en.json''))
   \<and> languageCodeRegex_test (basename_ext ''locales/en/en.json'' ''.json'')
   \<and> detectProjectStructure ''locales/en/en.json''
       = \<lparr>type = FolderBased, basePath = ''locales'', sourceLanguage = Some ''en''\<rparr>
   \<and> detectProjectStructure ''/srv/app/locales/ZH-hans-CN/fr.json''
       = \<lparr>type = FolderBased, basePath = ''/srv/app/locales'', sourceLanguage = Some ''ZH-hans-CN''\<rparr>"
proof -
  have d1: "dirname ''locales/en/en.json'' = ''locales/en''" "dirname ''locales/en'' = ''locales''"
    "basename ''locales/en'' = ''en''" "basename_ext ''locales/en/en.json'' ''.json'' = ''en''"
    by code_simp+
  have d2: "dirname ''/srv/app/locales/ZH-hans-CN/fr.json'' = ''/srv/app/locales/ZH-hans-CN''"
    "dirname ''/srv/app/locales/ZH-hans-CN'' = ''/srv/app/locales''"
    "basename ''/srv/app/locales/ZH-hans-CN'' = ''ZH-hans-CN''"
    by code_simp+
  have t: "languageCodeRegex_test ''en''" "languageCodeRegex_test ''ZH-hans-CN''"
    by code_simp+
  show ?thesis
    using detectProjectStructure_folder_first [of "''locales/en/en.json''"]
      detectProjectStructure_folder_first [of "''/srv/app/locales/ZH-hans-CN/fr.json''"]
    by (simp add: d1 d2 t)
qed

section \<open>detectLanguagesFromProject\<close>

lemma test_nonempty: "languageCodeRegex_test s \<Longrightarrow> s \<noteq> []"
  by (auto simp: languageCodeRegex_test_def languageCodeRegex_match_def languageCodeRegex_runs_def
      language_alts_def rep_def)

lemma set_set_add [simp]: "set (set_add x xs) = insert x (set xs)"
  by (auto simp: set_add_def)

lemma set_set_delete [simp]: "set (set_delete x xs) = set xs - {x}"
  by (auto simp: set_delete_def)

lemma set_insert_by [simp]: "set (insert_by cmp x xs) = insert x (set xs)"
  by (induction xs) auto

lemma set_sort_by [simp]: "set (sort_by cmp xs) = set xs"
  by (induction xs) (simp_all add: sort_by_def)

lemma sorted_insert_by:
  assumes "consistent cmp" "sorted_wrt (\<lambda>a b. cmp a b \<le> 0) xs"
  shows "sorted_wrt (\<lambda>a b. cmp a b \<le> 0) (insert_by cmp x xs)"
  using assms(2)
proof (induction xs)
  case Nil
  then show ?case by simp
next
  case (Cons y ys)
  have total: "cmp y x \<le> 0 \<or> cmp x y \<le> 0"
    using assms(1) by (auto simp: consistent_def)
  have trans: "cmp a b \<le> 0 \<Longrightarrow> cmp b c \<le> 0 \<Longrightarrow> cmp a c \<le> 0" for a b c
    using assms(1) unfolding consistent_def by blast
  show ?case
  proof (cases "cmp x y \<le> 0")
    case True
    with Cons.prems show ?thesis by (auto intro: trans)
  next
    case False
    with total have "cmp y x \<le> 0" by simp
    with False Cons show ?thesis by auto
  qed
qed

lemma sorted_sort_by:
  "consistent cmp \<Longrightarrow> sorted_wrt (\<lambda>a b. cmp a b \<le> 0) (sort_by cmp xs)"
  by (induction xs) (simp_all add: sort_by_def sorted_insert_by)

lemma scanDirectories_set:
  "set (scanDirectories entries)
   = {name e | e. e \<in> set entries \<and> isDirectory e \<and> languageCodeRegex_test (name e)}"
proof -
  have "set (foldl (\<lambda>languageCodes entry.
              if isDirectory entry \<and> languageCodeRegex_test (name entry)
              then set_add (name entry) languageCodes else languageCodes) acc entries)
        = set acc \<union> {name e | e. e \<in> set entries \<and> isDirectory e \<and> languageCodeRegex_test (name e)}"
    for acc
    by (induction entries arbitrary: acc) auto
  then show ?thesis by (simp add: scanDirectories_def)
qed

lemma scanFiles_set:
  "set (scanFiles entries)
   = {basename_ext (name e) ''.json'' | e.
        e \<in> set entries \<and> isFile e \<and> endsWith (name e) ''.json''
        \<and> languageCodeRegex_test (basename_ext (name e) ''.json'')}"
proof -
  have "set (foldl (\<lambda>languageCodes entry.
              if isFile entry \<and> endsWith (name entry) ''.json'' then
                (let fileName = basename_ext (name entry) ''.json''
                 in if languageCodeRegex_test fileName then set_add fileName languageCodes
                    else languageCodes)
              else languageCodes) acc entries)
        = set acc \<union> {basename_ext (name e) ''.json'' | e.
            e \<in> set entries \<and> isFile e \<and> endsWith (name e) ''.json''
            \<and> languageCodeRegex_test (basename_ext (name e) ''.json'')}"
    for acc
    by (induction entries arbitrary: acc) (auto simp: Let_def)
  then show ?thesis by (simp add: scanFiles_def)
qed

lemma scanProject_tested:
  "x \<in> set (fst (scanProject h s info)) \<Longrightarrow> languageCodeRegex_test x"
  by (auto simp: scanProject_def scanDirectories_set scanFiles_set
      split: ProjectStructureType.splits sum.splits)

lemma detectLanguages_set:
  "set (fst (detectLanguagesFromProject h s p))
   = set (fst (scanProject h s (detectProjectStructure p)))
     - (case sourceLanguage (detectProjectStructure p) of Some l \<Rightarrow> if l \<noteq> [] then {l} else {} | None \<Rightarrow> {})"
  by (auto simp: detectLanguagesFromProject_def Let_def split: prod.splits option.splits)

lemma sourceLanguage_tested:
  "sourceLanguage (detectProjectStructure p) = Some l \<Longrightarrow> languageCodeRegex_test l"
  by (auto simp: detectProjectStructure_def Let_def split: if_splits)

text \<open>
  Claim C10.  Every string returned by \<open>detectLanguagesFromProject\<close> is accepted by
  \<open>validateLanguageCode\<close>: a name enters the set only after the pattern has matched it.
\<close>

theorem detectLanguages_valid:
  "\<forall>x \<in> set (fst (detectLanguagesFromProject h s sourceFilePath)). validateLanguageCode x"
proof
  fix x
  assume "x \<in> set (fst (detectLanguagesFromProject h s sourceFilePath))"
  then have "x \<in> set (fst (scanProject h s (detectProjectStructure sourceFilePath)))"
    by (simp add: detectLanguages_set)
  then have "languageCodeRegex_test x"
    by (rule scanProject_tested)
  then show "validateLanguageCode x"
    by (simp add: validateLanguageCode_def test_nonempty)
qed

theorem detectLanguages_valid_witness:
  "fst (detectLanguagesFromProject table_host example_locales ''locales/en/common.json'')
     = [''de'', ''EN'', ''fr'']
   \<and> validateLanguageCode ''de'' \<and> validateLanguageCode ''EN'' \<and> validateLanguageCode ''fr''"
proof -
  have r: "fst (detectLanguagesFromProject table_host example_locales ''locales/en/common.json'')
      = [''de'', ''EN'', ''fr'']"
    by code_simp
  from detectLanguages_valid [of table_host example_locales "''locales/en/common.json''"]
  show ?thesis unfolding r by simp
qed

text \<open>
  Claim C8.  When \<open>readdirSync\<close> throws on the base path, \<open>detectLanguagesFromProject\<close> still
  returns: the error is caught, the list returned is empty, and in the folder-based and the
  file-based case the error is written to the console in one warning.
\<close>

theorem detectLanguages_readdir_failure:
  assumes "readdirSync h s (basePath (detectProjectStructure sourceFilePath)) = Inl error"
  shows "fst (detectLanguagesFromProject h s sourceFilePath) = []
         \<and> (type (detectProjectStructure sourceFilePath) \<noteq> Unknown \<longrightarrow>
              map snd (snd (detectLanguagesFromProject h s sourceFilePath)) = [error])"
  using assms
  by (auto simp: detectLanguagesFromProject_def scanProject_def Let_def set_delete_def sort_by_def
      split: ProjectStructureType.splits option.splits)

theorem detectLanguages_readdir_failure_witness:
  "readdirSync table_host example_i18n (basePath (detectProjectStructure ''locales/EN.json''))
     = Inl (SystemError ''ENOENT'')
   \<and> type (detectProjectStructure ''locales/EN.json'') \<noteq> Unknown
   \<and> fst (detectLanguagesFromProject table_host example_i18n ''locales/EN.json'') = []
   \<and> map snd (snd (detectLanguagesFromProject table_host example_i18n ''locales/EN.json''))
       = [SystemError ''ENOENT'']"
proof -
  have f: "readdirSync table_host example_i18n (basePath (detectProjectStructure ''locales/EN.json''))
      = Inl (SystemError ''ENOENT'')"
    by code_simp
  have u: "type (detectProjectStructure ''locales/EN.json'') \<noteq> Unknown"
    by code_simp
  from detectLanguages_readdir_failure [OF f] f u show ?thesis by simp
qed

text \<open>
  Claim C4, as the code has it.  The source language is removed with \<open>Set.delete\<close>, which
  compares strings exactly.  The list returned never holds the source language as it is
  written in the path, and it holds every other candidate: what is returned is the candidate
  set without that one string.  A directory name (folder-based) or a file stem (file-based)
  that matches the pattern and is not identical to the source language is returned, also when
  it differs from the source language by case only.
\<close>

theorem detectLanguages_excludes_source:
  assumes "sourceLanguage (detectProjectStructure sourceFilePath) = Some l"
  shows "l \<notin> set (fst (detectLanguagesFromProject h s sourceFilePath))
    \<and> set (fst (detectLanguagesFromProject h s sourceFilePath))
        = set (fst (scanProject h s (detectProjectStructure sourceFilePath))) - {l}
    \<and> (\<forall>entries e.
          readdirSync h s (basePath (detectProjectStructure sourceFilePath)) = Inr entries
          \<and> e \<in> set entries \<longrightarrow>
          (type (detectProjectStructure sourceFilePath) = FolderBased
           \<and> isDirectory e \<and> languageCodeRegex_test (name e) \<and> name e \<noteq> l
           \<longrightarrow> name e \<in> set (fst (detectLanguagesFromProject h s sourceFilePath)))
          \<and> (type (detectProjectStructure sourceFilePath) = FileBased
             \<and> isFile e \<and> endsWith (name e) ''.json''
             \<and> languageCodeRegex_test (basename_ext (name e) ''.json'')
             \<and> basename_ext (name e) ''.json'' \<noteq> l
             \<longrightarrow> basename_ext (name e) ''.json''
                  \<in> set (fst (detectLanguagesFromProject h s sourceFilePath))))"
proof -
  let ?info = "detectProjectStructure sourceFilePath"
  from assms have "l \<noteq> []"
    using sourceLanguage_tested test_nonempty by blast
  with assms have eq: "set (fst (detectLanguagesFromProject h s sourceFilePath))
      = set (fst (scanProject h s ?info)) - {l}"
    by (simp add: detectLanguages_set)
  have folder: "name e \<in> set (fst (scanProject h s ?info))"
    if "readdirSync h s (basePath ?info) = Inr entries" "e \<in> set entries"
      "type ?info = FolderBased" "isDirectory e" "languageCodeRegex_test (name e)"
    for entries e
    using that by (auto simp: scanProject_def scanDirectories_set)
  have files: "basename_ext (name e) ''.json'' \<in> set (fst (scanProject h s ?info))"
    if "readdirSync h s (basePath ?info) = Inr entries" "e \<in> set entries"
      "type ?info = FileBased" "isFile e" "endsWith (name e) ''.json''"
      "languageCodeRegex_test (basename_ext (name e) ''.json'')"
    for entries e
    using that by (auto simp: scanProject_def scanFiles_set)
  show ?thesis
    using eq folder files by blast
qed

theorem detectLanguages_excludes_source_witness:
  "sourceLanguage (detectProjectStructure ''locales/en/common.json'') = Some ''en''
   \<and> type (detectProjectStructure ''locales/en/common.json'') = FolderBased
   \<and> readdirSync table_host example_locales (basePath (detectProjectStructure ''locales/en/common.json''))
       = Inr [\<lparr>name = ''en'', dtype = Directory\<rparr>, \<lparr>name = ''EN'', dtype = Directory\<rparr>,
              \<lparr>name = ''fr'', dtype = Directory\<rparr>, \<lparr>name = ''de'', dtype = Directory\<rparr>,
              \<lparr>name = ''README.md'', dtype = RegularFile\<rparr>]
   \<and> isDirectory \<lparr>name = ''EN'', dtype = Directory\<rparr> \<and> languageCodeRegex_test ''EN''
   \<and> ''EN'' \<noteq> ''en'' \<and> toLowerCase ''EN'' = toLowerCase ''en''
   \<and> ''en'' \<notin> set (fst (detectLanguagesFromProject table_host example_locales ''locales/en/common.json''))
   \<and> ''EN'' \<in> set (fst (detectLanguagesFromProject table_host example_locales ''locales/en/common.json''))
   \<and> sourceLanguage (detectProjectStructure ''i18n/EN.json'') = Some ''EN''
   \<and> type (detectProjectStructure ''i18n/EN.json'') = FileBased
   \<and> ''EN'' \<notin> set (fst (detectLanguagesFromProject table_host example_i18n ''i18n/EN.json''))
   \<and> ''Fr'' \<in> set (fst (detectLanguagesFromProject table_host example_i18n ''i18n/EN.json''))"
proof -
  let ?entries = "[\<lparr>name = ''en'', dtype = Directory\<rparr>, \<lparr>name = ''EN'', dtype = Directory\<rparr>,
              \<lparr>name = ''fr'', dtype = Directory\<rparr>, \<lparr>name = ''de'', dtype = Directory\<rparr>,
              \<lparr>name = ''README.md'', dtype = RegularFile\<rparr>]"
  let ?files = "[\<lparr>name = ''EN.json'', dtype = RegularFile\<rparr>, \<lparr>name = ''RU.json'', dtype = RegularFile\<rparr>,
              \<lparr>name = ''Fr.json'', dtype = RegularFile\<rparr>, \<lparr>name = ''de.json'', dtype = RegularFile\<rparr>]"
  have l: "sourceLanguage (detectProjectStructure ''locales/en/common.json'') = Some ''en''"
    by code_simp
  have t: "type (detectProjectStructure ''locales/en/common.json'') = FolderBased"
    by code_simp
  have r: "readdirSync table_host example_locales (basePath (detectProjectStructure ''locales/en/common.json''))
       = Inr ?entries"
    by code_simp
  have e: "isDirectory \<lparr>name = ''EN'', dtype = Directory\<rparr>" "languageCodeRegex_test ''EN''"
    "''EN'' \<noteq> ''en''" "toLowerCase ''EN'' = toLowerCase ''en''"
    by code_simp+
  note folder = detectLanguages_excludes_source [OF l, of table_host example_locales]
  have a: "''en'' \<notin> set (fst (detectLanguagesFromProject table_host example_locales ''locales/en/common.json''))"
    using folder by (rule conjunct1)
  have b: "''EN'' \<in> set (fst (detectLanguagesFromProject table_host example_locales ''locales/en/common.json''))"
    using folder [THEN conjunct2, THEN conjunct2, rule_format, of ?entries "\<lparr>name = ''EN'', dtype = Directory\<rparr>",
        THEN conjunct1, rule_format] r t e
    by simp
  have l2: "sourceLanguage (detectProjectStructure ''i18n/EN.json'') = Some ''EN''"
    by code_simp
  have t2: "type (detectProjectStructure ''i18n/EN.json'') = FileBased"
    by code_simp
  have r2: "readdirSync table_host example_i18n (basePath (detectProjectStructure ''i18n/EN.json''))
       = Inr ?files"
    by code_simp
  have e2: "isFile \<lparr>name = ''Fr.json'', dtype = RegularFile\<rparr>" "endsWith ''Fr.json'' ''.json''"
    "basename_ext ''Fr.json'' ''.json'' = ''Fr''" "languageCodeRegex_test ''Fr''" "''Fr'' \<noteq> ''EN''"
    by code_simp+
  note files = detectLanguages_excludes_source [OF l2, of table_host example_i18n]
  have c: "''EN'' \<notin> set (fst (detectLanguagesFromProject table_host example_i18n ''i18n/EN.json''))"
    using files by (rule conjunct1)
  have d: "''Fr'' \<in> set (fst (detectLanguagesFromProject table_host example_i18n ''i18n/EN.json''))"
    using files [THEN conjunct2, THEN conjunct2, rule_format, of ?files "\<lparr>name = ''Fr.json'', dtype = RegularFile\<rparr>",
        THEN conjunct2, rule_format] r2 t2 e2
    by simp
  show ?thesis
    by (intro conjI l t r e a b l2 t2 c d)
qed

text \<open>
  The claim as the specification states it fails: with the directories \<open>en\<close> and \<open>EN\<close> side by
  side, enumerating from \<open>locales/en/common.json\<close> returns \<open>EN\<close>, which equals the source
  language \<open>en\<close> when case is ignored.
\<close>

theorem detectLanguages_case_insensitive_counterexample:
  "sourceLanguage (detectProjectStructure ''locales/en/common.json'') = Some ''en''
   \<and> ''EN'' \<in> set (fst (detectLanguagesFromProject table_host example_locales ''locales/en/common.json''))
   \<and> toLowerCase ''EN'' = toLowerCase ''en''"
proof -
  have "sourceLanguage (detectProjectStructure ''locales/en/common.json'') = Some ''en''"
    by code_simp
  moreover have "fst (detectLanguagesFromProject table_host example_locales ''locales/en/common.json'')
      = [''de'', ''EN'', ''fr'']"
    by code_simp
  moreover have "toLowerCase ''EN'' = toLowerCase ''en''"
    by code_simp
  ultimately show ?thesis by simp
qed

lemma compareCodes_total: "compareCodes xs ys \<le> 0 \<or> compareCodes ys xs \<le> 0"
  by (induction xs ys rule: compareCodes.induct) auto

lemma compareCodes_trans:
  "compareCodes xs ys \<le> 0 \<Longrightarrow> compareCodes ys zs \<le> 0 \<Longrightarrow> compareCodes xs zs \<le> 0"
proof (induction xs zs arbitrary: ys rule: compareCodes.induct)
  case 1
  then show ?case by simp
next
  case (2 y ys)
  then show ?case by simp
next
  case (3 x xs)
  from "3.prems" show ?case by (cases ys) (auto split: if_splits)
next
  case (4 x xs z zs)
  from "4.prems" obtain y ys' where ys: "ys = y # ys'"
    by (cases ys) auto
  from "4.prems" ys have xy: "x \<le> y" and yz: "y \<le> z"
    by (auto split: if_splits)
  show ?case
  proof (cases "x < z")
    case True
    then show ?thesis by simp
  next
    case False
    with xy yz have eq: "x = y" "y = z" by auto
    with "4.prems" ys have "compareCodes xs ys' \<le> 0" "compareCodes ys' zs \<le> 0"
      by auto
    with "4.IH" [of ys'] eq False show ?thesis by auto
  qed
qed

lemma consistent_compareBase: "consistent compareBase"
  unfolding consistent_def compareBase_def
  using compareCodes_total compareCodes_trans by blast

lemma lastPart_append:
  assumes "x \<noteq> []" "sep \<notin> set x"
  shows "lastPart (m @ x) = rev (takeWhile (\<lambda>c. c \<noteq> sep) (rev m)) @ x"
proof -
  from assms have "last x \<noteq> sep"
    by (metis last_in_set)
  with assms have h: "hd (rev x) \<noteq> sep" "rev x \<noteq> []"
    by (simp_all add: hd_rev)
  then have "dropWhile (\<lambda>c. c = sep) (rev x @ rev m) = rev x @ rev m"
    by (cases "rev x") simp_all
  moreover have "takeWhile (\<lambda>c. c \<noteq> sep) (rev x @ rev m) = rev x @ takeWhile (\<lambda>c. c \<noteq> sep) (rev m)"
    using assms by (intro takeWhile_append2) auto
  ultimately show ?thesis by (simp add: lastPart_def)
qed

lemma basename_ext_json:
  assumes "endsWith n ''.json''" "languageCodeRegex_test (basename_ext n ''.json'')"
  shows "basename n = basename_ext n ''.json'' @ ''.json''"
proof -
  from assms(1) obtain m where n: "n = m @ ''.json''"
    unfolding endsWith_def by (metis append_take_drop_id)
  let ?c = "rev (takeWhile (\<lambda>c. c \<noteq> sep) (rev m))"
  have comp: "lastPart n = ?c @ ''.json''"
    unfolding n by (rule lastPart_append) (simp_all add: sep_def)
  have nt: "\<not> languageCodeRegex_test []" "\<not> languageCodeRegex_test ''.json''"
    by code_simp+
  have m: "m \<noteq> []"
    using assms(2) nt(1) by (auto simp: n basename_ext_def)
  have ew: "endsWith (?c @ ''.json'') ''.json''"
    by (simp add: endsWith_def)
  have c: "?c \<noteq> []"
  proof
    assume "?c = []"
    with comp m have "basename_ext n ''.json'' = ''.json''"
      by (simp add: basename_ext_def n endsWith_def)
    with assms(2) nt(2) show False by simp
  qed
  from comp m c ew have "basename_ext n ''.json'' = ?c"
    by (simp add: basename_ext_def n Let_def)
  with comp show ?thesis by (simp add: basename_def)
qed

text \<open>
  Claim C5.  Whatever consistent comparator the host's collation is, the list returned is
  sorted by it.  Every string returned is a name on disk, character for character: the name
  of a directory entry in the folder-based case, and the name of a file entry without its
  \<open>.json\<close> in the file-based case; no case mapping is applied.
\<close>

theorem detectLanguages_sorted_case_preserving:
  assumes "consistent (localeCompare h)"
  shows "sorted_wrt (\<lambda>a b. localeCompare h a b \<le> 0) (fst (detectLanguagesFromProject h s sourceFilePath))
    \<and> (\<forall>x \<in> set (fst (detectLanguagesFromProject h s sourceFilePath)).
          \<exists>entries e.
            readdirSync h s (basePath (detectProjectStructure sourceFilePath)) = Inr entries
            \<and> e \<in> set entries
            \<and> (case type (detectProjectStructure sourceFilePath) of
                 FolderBased \<Rightarrow> isDirectory e \<and> name e = x
               | FileBased \<Rightarrow> isFile e \<and> basename (name e) = x @ ''.json''
               | Unknown \<Rightarrow> False))"
proof
  show "sorted_wrt (\<lambda>a b. localeCompare h a b \<le> 0) (fst (detectLanguagesFromProject h s sourceFilePath))"
    using assms
    by (simp add: detectLanguagesFromProject_def Let_def sorted_sort_by split: prod.splits)
next
  let ?info = "detectProjectStructure sourceFilePath"
  show "\<forall>x \<in> set (fst (detectLanguagesFromProject h s sourceFilePath)).
          \<exists>entries e.
            readdirSync h s (basePath ?info) = Inr entries
            \<and> e \<in> set entries
            \<and> (case type ?info of
                 FolderBased \<Rightarrow> isDirectory e \<and> name e = x
               | FileBased \<Rightarrow> isFile e \<and> basename (name e) = x @ ''.json''
               | Unknown \<Rightarrow> False)"
  proof
    fix x
    assume "x \<in> set (fst (detectLanguagesFromProject h s sourceFilePath))"
    then have x: "x \<in> set (fst (scanProject h s ?info))"
      by (simp add: detectLanguages_set)
    show "\<exists>entries e.
            readdirSync h s (basePath ?info) = Inr entries
            \<and> e \<in> set entries
            \<and> (case type ?info of
                 FolderBased \<Rightarrow> isDirectory e \<and> name e = x
               | FileBased \<Rightarrow> isFile e \<and> basename (name e) = x @ ''.json''
               | Unknown \<Rightarrow> False)"
    proof (cases "type ?info")
      case FolderBased
      with x show ?thesis
        by (auto simp: scanProject_def scanDirectories_set split: sum.splits)
    next
      case FileBased
      with x obtain entries e where
        "readdirSync h s (basePath ?info) = Inr entries" "e \<in> set entries" "isFile e"
        "endsWith (name e) ''.json''" "languageCodeRegex_test (basename_ext (name e) ''.json'')"
        "x = basename_ext (name e) ''.json''"
        by (auto simp: scanProject_def scanFiles_set split: sum.splits)
      with FileBased show ?thesis
        using basename_ext_json [of "name e"] by auto
    next
      case Unknown
      with x show ?thesis by (simp add: scanProject_def)
    qed
  qed
qed

theorem detectLanguages_sorted_case_preserving_witness:
  "consistent (localeCompare table_host)
   \<and> readdirSync table_host example_i18n ''i18n''
       = Inr [\<lparr>name = ''EN.json'', dtype = RegularFile\<rparr>, \<lparr>name = ''RU.json'', dtype = RegularFile\<rparr>,
              \<lparr>name = ''Fr.json'', dtype = RegularFile\<rparr>, \<lparr>name = ''de.json'', dtype = RegularFile\<rparr>]
   \<and> fst (detectLanguagesFromProject table_host example_i18n ''i18n/EN.json'') = [''de'', ''Fr'', ''RU'']
   \<and> sorted_wrt (\<lambda>a b. localeCompare table_host a b \<le> 0) [''de'', ''Fr'', ''RU'']"
proof -
  have c: "consistent (localeCompare table_host)"
    by (simp add: table_host_def consistent_compareBase)
  have r: "readdirSync table_host example_i18n ''i18n''
       = Inr [\<lparr>name = ''EN.json'', dtype = RegularFile\<rparr>, \<lparr>name = ''RU.json'', dtype = RegularFile\<rparr>,
              \<lparr>name = ''Fr.json'', dtype = RegularFile\<rparr>, \<lparr>name = ''de.json'', dtype = RegularFile\<rparr>]"
    by code_simp
  have d: "fst (detectLanguagesFromProject table_host example_i18n ''i18n/EN.json'') = [''de'', ''Fr'', ''RU'']"
    by code_simp
  from detectLanguages_sorted_case_preserving [OF c, of example_i18n "''i18n/EN.json''"]
  have "sorted_wrt (\<lambda>a b. localeCompare table_host a b \<le> 0) [''de'', ''Fr'', ''RU'']"
    unfolding d by blast
  with c r d show ?thesis by simp
qed

section \<open>getUniqueFilePath\<close>

lemma probe_first_free:
  assumes "c \<le> k" "k \<le> 2 ^ 53"
    and "\<forall>j. c \<le> j \<and> j < k \<longrightarrow>
           existsSync h s (join [dir, baseName @ '' ('' @ numberToString j @ '')'' @ ext])"
    and "\<not> existsSync h s (join [dir, baseName @ '' ('' @ numberToString k @ '')'' @ ext])"
  shows "probe h s dir baseName ext c
         = Some (join [dir, baseName @ '' ('' @ numberToString k @ '')'' @ ext])"
  using assms
proof (induction "nat (k - c)" arbitrary: c)
  case 0
  then have "c = k" by simp
  with "0.prems"(4) show ?case
    by (subst probe.simps) (simp add: Let_def)
next
  case (Suc d)
  then have lt: "c < k" by simp
  with Suc.prems have ex: "existsSync h s (join [dir, baseName @ '' ('' @ numberToString c @ '')'' @ ext])"
    by simp
  from lt Suc.prems(2) have inc: "increment c = c + 1"
    by (simp add: increment_def)
  have "probe h s dir baseName ext (c + 1)
        = Some (join [dir, baseName @ '' ('' @ numberToString k @ '')'' @ ext])"
  proof (rule Suc.hyps(1))
    show "d = nat (k - (c + 1))" using Suc.hyps(2) by simp
    show "c + 1 \<le> k" using lt by simp
    show "k \<le> 2 ^ 53" by (rule Suc.prems(2))
    show "\<forall>j. c + 1 \<le> j \<and> j < k \<longrightarrow>
           existsSync h s (join [dir, baseName @ '' ('' @ numberToString j @ '')'' @ ext])"
      using Suc.prems(3) by simp
    show "\<not> existsSync h s (join [dir, baseName @ '' ('' @ numberToString k @ '')'' @ ext])"
      by (rule Suc.prems(4))
  qed
  with ex inc show ?case
    by (subst probe.simps) (simp add: Let_def)
qed

text \<open>
  Claim C2.  A path at which nothing exists is returned unchanged.  Otherwise the paths with
  the counters 1, 2, 3, ... are probed in this order, and the first of them at which nothing
  exists is returned: if the paths of all counters below \<open>k\<close> exist and the path of \<open>k\<close> does
  not, the result is the path of \<open>k\<close>.  The loop returns as soon as such a \<open>k\<close> exists (a
  JavaScript number counts exactly up to \<open>2^53\<close>).
\<close>

theorem getUniqueFilePath_first_free:
  "(\<not> existsSync h s filePath \<longrightarrow> getUniqueFilePath h s filePath = Some filePath)
   \<and> (existsSync h s filePath \<and> 1 \<le> k \<and> k \<le> 2 ^ 53
        \<and> (\<forall>j. 1 \<le> j \<and> j < k \<longrightarrow> existsSync h s (candidate filePath j))
        \<and> \<not> existsSync h s (candidate filePath k)
      \<longrightarrow> getUniqueFilePath h s filePath = Some (candidate filePath k))"
proof (intro conjI impI)
  assume "\<not> existsSync h s filePath"
  then show "getUniqueFilePath h s filePath = Some filePath"
    by (simp add: getUniqueFilePath_def)
next
  assume a: "existsSync h s filePath \<and> 1 \<le> k \<and> k \<le> 2 ^ 53
        \<and> (\<forall>j. 1 \<le> j \<and> j < k \<longrightarrow> existsSync h s (candidate filePath j))
        \<and> \<not> existsSync h s (candidate filePath k)"
  then have "probe h s (dirname filePath) (basename_ext filePath (extname filePath)) (extname filePath) 1
      = Some (candidate filePath k)"
    unfolding candidate_def by (intro probe_first_free) simp_all
  with a show "getUniqueFilePath h s filePath = Some (candidate filePath k)"
    by (simp add: getUniqueFilePath_def Let_def)
qed

theorem getUniqueFilePath_first_free_witness:
  "\<not> existsSync table_host example_collision ''i18n/de.json''
   \<and> getUniqueFilePath table_host example_collision ''i18n/de.json'' = Some ''i18n/de.json''
   \<and> existsSync table_host example_collision ''i18n/fr.json''
   \<and> candidate ''i18n/fr.json'' 1 = ''i18n/fr (1).json''
   \<and> existsSync table_host example_collision ''i18n/fr (1).json''
   \<and> candidate ''i18n/fr.json'' 2 = ''i18n/fr (2).json''
   \<and> \<not> existsSync table_host example_collision ''i18n/fr (2).json''
   \<and> getUniqueFilePath table_host example_collision ''i18n/fr.json'' = Some ''i18n/fr (2).json''"
proof -
  have e: "\<not> existsSync table_host example_collision ''i18n/de.json''"
    "existsSync table_host example_collision ''i18n/fr.json''"
    "existsSync table_host example_collision ''i18n/fr (1).json''"
    "\<not> existsSync table_host example_collision ''i18n/fr (2).json''"
    by code_simp+
  have c: "candidate ''i18n/fr.json'' 1 = ''i18n/fr (1).json''"
    "candidate ''i18n/fr.json'' 2 = ''i18n/fr (2).json''"
    by code_simp+
  have j: "\<forall>j::int. 1 \<le> j \<and> j < 2 \<longrightarrow> existsSync table_host example_collision (candidate ''i18n/fr.json'' j)"
  proof (intro allI impI)
    fix j :: int
    assume "1 \<le> j \<and> j < 2"
    then have "j = 1" by simp
    with c e show "existsSync table_host example_collision (candidate ''i18n/fr.json'' j)" by simp
  qed
  have k: "(2::int) \<le> 2 ^ 53" by simp
  from getUniqueFilePath_first_free [of table_host example_collision "''i18n/de.json''" 1]
    getUniqueFilePath_first_free [of table_host example_collision "''i18n/fr.json''" 2]
    e c j k
  show ?thesis by simp
qed

section \<open>Paths\<close>

lemma splitPath_nonempty [simp]: "splitPath p \<noteq> []"
  by (induction p) (auto split: list.splits)

lemma splitPath_append_sep: "splitPath (a @ sep # b) = splitPath a @ splitPath b"
proof (induction a)
  case Nil
  then show ?case by simp
next
  case (Cons c a)
  obtain x xs where "splitPath a = x # xs"
    by (cases "splitPath a") simp_all
  with Cons show ?case by simp
qed

lemma splitPath_segment: "sep \<notin> set f \<Longrightarrow> splitPath f = [f]"
  by (induction f) auto

lemma splitPath_sepfree: "x \<in> set (splitPath p) \<Longrightarrow> sep \<notin> set x"
proof (induction p arbitrary: x)
  case Nil
  then show ?case by simp
next
  case (Cons c p)
  obtain y ys where s: "splitPath p = y # ys"
    by (cases "splitPath p") simp_all
  with Cons show ?case by (auto split: if_splits)
qed

lemma normalizeString_snoc:
  "normalizeString a (xs @ [x]) = normalizeStep a (normalizeString a xs) x"
  by (simp add: normalizeString_def)

lemma normalizeString_Nil [simp]: "normalizeString a [] = []"
  by (simp add: normalizeString_def)

lemma normalizeStep_segment: "isSegment f \<Longrightarrow> normalizeStep a res f = res @ [f]"
  by (simp add: normalizeStep_def isSegment_def)

lemma normalizeStep_skip [simp]: "normalizeStep a res [] = res" "normalizeStep a res ''.'' = res"
  by (simp_all add: normalizeStep_def)

lemma normalizeStep_parts:
  assumes "\<forall>y \<in> set res. y \<noteq> [] \<and> sep \<notin> set y \<and> y \<noteq> ''.''" "sep \<notin> set x"
  shows "\<forall>y \<in> set (normalizeStep a res x). y \<noteq> [] \<and> sep \<notin> set y \<and> y \<noteq> ''.''"
  using assms by (auto simp: normalizeStep_def sep_def dest: in_set_butlastD)

lemma normalizeString_parts:
  assumes "\<forall>x \<in> set xs. sep \<notin> set x"
  shows "\<forall>y \<in> set (normalizeString a xs). y \<noteq> [] \<and> sep \<notin> set y \<and> y \<noteq> ''.''"
  using assms
proof (induction xs rule: rev_induct)
  case Nil
  then show ?case by simp
next
  case (snoc x xs)
  then show ?case
    unfolding normalizeString_snoc by (intro normalizeStep_parts) simp_all
qed

lemma normalParts_parts:
  "\<forall>y \<in> set (normalParts p). y \<noteq> [] \<and> sep \<notin> set y \<and> y \<noteq> ''.''"
  unfolding normalParts_def by (intro normalizeString_parts) (simp add: splitPath_sepfree)

lemma joinWith_snoc: "xs \<noteq> [] \<Longrightarrow> joinWith s (xs @ [f]) = joinWith s xs @ s @ f"
  by (induction s xs rule: joinWith.induct) simp_all

lemma joinWith_nonempty: "xs \<noteq> [] \<Longrightarrow> \<forall>x \<in> set xs. x \<noteq> [] \<Longrightarrow> joinWith s xs \<noteq> []"
  by (induction s xs rule: joinWith.induct) simp_all

lemma last_joinWith: "xs \<noteq> [] \<Longrightarrow> \<forall>x \<in> set xs. x \<noteq> [] \<Longrightarrow> last (joinWith s xs) = last (last xs)"
proof (induction s xs rule: joinWith.induct)
  case (3 s x y ys)
  then have "joinWith s (y # ys) \<noteq> []"
    by (intro joinWith_nonempty) simp_all
  with 3 show ?case by simp
qed simp_all


lemmas slash = sep_def [symmetric]

lemma lastPart_trailing: "lastPart (q @ [sep]) = lastPart q"
  by (simp add: lastPart_def)

lemma lastPart_after_sep:
  assumes "f \<noteq> []" "sep \<notin> set f" "m = [] \<or> last m = sep"
  shows "lastPart (m @ f) = f"
proof -
  have "takeWhile (\<lambda>c. c \<noteq> sep) (rev m) = []"
    using assms(3) by (cases m rule: rev_cases) auto
  with lastPart_append [OF assms(1,2), of m] show ?thesis by simp
qed

lemma lastPart_sepfree: "sep \<notin> set (lastPart p)"
  by (auto simp: lastPart_def dest: set_takeWhileD)

lemma tl_nonempty: "\<not> length r \<le> 1 \<Longrightarrow> rev (tl r) \<noteq> []"
  by (cases r) auto

lemma dirname_cases:
  "dirname p = ''.'' \<or> dirname p = ''/'' \<or> dirname p = ''//''
   \<or> (\<exists>r. \<not> length r \<le> 1 \<and> dirname p = rev (tl r))"
  unfolding dirname_def Let_def by (simp only: split: if_split) blast

lemma dirname_nonempty: "dirname p \<noteq> []"
  using dirname_cases [of p] tl_nonempty by fastforce


lemma dropWhile_sep_rev:
  assumes "f \<noteq> []" "sep \<notin> set f"
  shows "dropWhile (\<lambda>c. c = sep) (rev f @ x) = rev f @ x"
proof -
  from assms have "last f \<noteq> sep" by (metis last_in_set)
  with assms(1) have "hd (rev f) \<noteq> sep" "rev f \<noteq> []"
    by (simp_all add: hd_rev)
  then show ?thesis by (cases "rev f") simp_all
qed

lemma dropWhile_nonsep_rev:
  assumes "sep \<notin> set f"
  shows "dropWhile (\<lambda>c. c \<noteq> sep) (rev f @ x) = dropWhile (\<lambda>c. c \<noteq> sep) x"
  using assms by (simp add: dropWhile_append)

lemma dirname_snoc:
  assumes "y \<noteq> []" "last y \<noteq> sep" "f \<noteq> []" "sep \<notin> set f"
  shows "dirname (y @ sep # f) = y"
proof -
  have r: "dropWhile (\<lambda>c. c \<noteq> sep) (dropWhile (\<lambda>c. c = sep) (rev (y @ sep # f))) = sep # rev y"
    using dropWhile_sep_rev [OF assms(3,4), of "sep # rev y"]
      dropWhile_nonsep_rev [OF assms(4), of "sep # rev y"] by simp
  have n: "\<not> (hd (y @ sep # f) = sep \<and> length (sep # rev y) = 2)"
    using assms(1,2) by (cases y) auto
  have l: "\<not> length (sep # rev y) \<le> 1"
    using assms(1) by simp
  have "dirname (y @ sep # f) = rev (tl (sep # rev y))"
    unfolding dirname_def r Let_def using n l by (simp only: if_False append_is_Nil_conv assms(1) simp_thms)
  then show ?thesis by simp
qed

lemma dirname_single:
  assumes "f \<noteq> []" "sep \<notin> set f"
  shows "dirname f = ''.''" "dirname (sep # f) = ''/''"
proof -
  have "dropWhile (\<lambda>c. c = sep) (rev f) = rev f"
    using dropWhile_sep_rev [OF assms, of "[]"] by simp
  moreover have "dropWhile (\<lambda>c. c \<noteq> sep) (rev f) = []"
    using assms(2) by (auto simp: dropWhile_eq_Nil_conv)
  ultimately have r1: "dropWhile (\<lambda>c. c \<noteq> sep) (dropWhile (\<lambda>c. c = sep) (rev f)) = []"
    by simp
  have r2: "dropWhile (\<lambda>c. c \<noteq> sep) (dropWhile (\<lambda>c. c = sep) (rev (sep # f))) = [sep]"
    using dropWhile_sep_rev [OF assms, of "[sep]"] dropWhile_nonsep_rev [OF assms(2), of "[sep]"]
    by simp
  from assms have h: "hd f \<noteq> sep" by (cases f) auto
  show "dirname f = ''.''"
    unfolding dirname_def r1 Let_def using assms(1) h by simp
  show "dirname (sep # f) = ''/''"
    unfolding dirname_def r2 Let_def by simp
qed

lemma root_cases: "root p = [] \<or> root p = [sep]"
  by (simp add: root_def sep_def)

lemma normalizePath_eq:
  assumes "p \<noteq> []"
  shows "normalizePath p =
         (if normalParts p = []
          then (if hd p = sep then [sep] else if last p = sep then CHR ''.'' # [sep] else ''.'')
          else root p @ joinWith [sep] (normalParts p) @ (if last p = sep then [sep] else []))"
proof -
  have "joinWith [sep] (normalParts p) = [] \<longleftrightarrow> normalParts p = []"
    using joinWith_nonempty [of "normalParts p" "[sep]"] normalParts_parts [of p]
    by (cases "normalParts p = []") auto
  then show ?thesis
    using assms unfolding normalizePath_def Let_def normalParts_def root_def
    by (simp add: slash)
qed

lemma normalizePath_nonempty: "normalizePath p \<noteq> []"
proof (cases "p = []")
  case True
  then show ?thesis by (simp add: normalizePath_def)
next
  case False
  have "joinWith [sep] (normalParts p) \<noteq> []" if "normalParts p \<noteq> []"
    using that joinWith_nonempty [of "normalParts p" "[sep]"] normalParts_parts [of p] by auto
  then show ?thesis
    unfolding normalizePath_eq [OF False] by auto
qed

lemma join2:
  assumes "d \<noteq> []" "f \<noteq> []"
  shows "join [d, f] = normalizePath (d @ sep # f)"
  using assms by (simp add: join_def slash)

lemma normalParts_snoc:
  assumes "d \<noteq> []" "isSegment f"
  shows "normalParts (d @ sep # f) = normalParts d @ [f]"
proof -
  have "splitPath (d @ sep # f) = splitPath d @ [f]"
    using assms(2) by (simp add: splitPath_append_sep splitPath_segment isSegment_def)
  moreover have "hd (d @ sep # f) = hd d"
    using assms(1) by simp
  ultimately show ?thesis
    using assms(2) by (simp add: normalParts_def normalizeString_snoc normalizeStep_segment)
qed

text \<open>Joining a segment onto a directory appends it to the normalized parts of the directory.\<close>

lemma join_segment:
  assumes "d \<noteq> []" "isSegment f"
  shows "join [d, f] = root d @ joinWith [sep] (normalParts d @ [f])"
proof -
  from assms(2) have f: "f \<noteq> []" "last f \<noteq> sep"
    unfolding isSegment_def by (metis last_in_set)+
  have "normalizePath (d @ sep # f)
        = root (d @ sep # f) @ joinWith [sep] (normalParts (d @ sep # f))"
    using f by (subst normalizePath_eq) (simp_all add: normalParts_snoc [OF assms])
  moreover have "root (d @ sep # f) = root d"
    using assms(1) by (simp add: root_def)
  ultimately show ?thesis
    using f by (simp add: join2 [OF assms(1)] normalParts_snoc [OF assms])
qed

lemma joined_split:
  assumes "r = [] \<or> r = [sep]"
  shows "\<exists>m. r @ joinWith [sep] (ns @ [f]) = m @ f \<and> (m = [] \<or> last m = sep)"
proof (cases "ns = []")
  case True
  with assms show ?thesis by auto
next
  case False
  then have "r @ joinWith [sep] (ns @ [f]) = (r @ joinWith [sep] ns @ [sep]) @ f"
    by (simp add: joinWith_snoc)
  then show ?thesis by (metis last_snoc append_assoc)
qed

lemma basename_joined:
  assumes "r = [] \<or> r = [sep]" "f \<noteq> []" "sep \<notin> set f"
  shows "basename (r @ joinWith [sep] (ns @ [f])) = f"
proof -
  from joined_split [OF assms(1), of ns f] obtain m where
    "r @ joinWith [sep] (ns @ [f]) = m @ f" "m = [] \<or> last m = sep"
    by blast
  then show ?thesis
    using lastPart_after_sep [OF assms(2,3), of m] by (simp add: basename_def)
qed

lemma dirname_joined:
  assumes "r = [] \<or> r = [sep]" "f \<noteq> []" "sep \<notin> set f"
    and "\<forall>y \<in> set ns. y \<noteq> [] \<and> sep \<notin> set y"
  shows "dirname (r @ joinWith [sep] (ns @ [f]))
         = (if ns = [] then (if r = [sep] then ''/'' else ''.'') else r @ joinWith [sep] ns)"
proof (cases "ns = []")
  case True
  with assms(1) show ?thesis
    using dirname_single [OF assms(2,3)] by auto
next
  case False
  let ?y = "r @ joinWith [sep] ns"
  have ne: "joinWith [sep] ns \<noteq> []"
    using False assms(4) by (intro joinWith_nonempty) auto
  have "last (joinWith [sep] ns) = last (last ns)"
    using False assms(4) by (intro last_joinWith) auto
  moreover have "last (last ns) \<noteq> sep"
    using False assms(4) by (metis last_in_set)
  ultimately have "last ?y \<noteq> sep" "?y \<noteq> []"
    using ne by simp_all
  then have "dirname (?y @ sep # f) = ?y"
    using assms(2,3) by (intro dirname_snoc)
  with False show ?thesis by (simp add: joinWith_snoc)
qed

lemma basename_normalize:
  assumes "d \<noteq> []"
  shows "basename (normalizePath d)
         = (if normalParts d = [] then (if hd d = sep then [] else ''.'') else last (normalParts d))"
proof (cases "normalParts d = []")
  case True
  have "lastPart [sep] = []" "lastPart (CHR ''.'' # [sep]) = ''.''" "lastPart ''.'' = ''.''"
    by (simp_all add: lastPart_def sep_def)
  with True show ?thesis
    by (simp add: normalizePath_eq [OF assms] basename_def)
next
  case False
  then obtain ns x where ns: "normalParts d = ns @ [x]"
    by (cases "normalParts d" rule: rev_cases) auto
  have x: "x \<noteq> []" "sep \<notin> set x"
    using normalParts_parts [of d] ns by auto
  have b: "basename (root d @ joinWith [sep] (ns @ [x])) = x"
    using root_cases [of d] x by (intro basename_joined)
  have "basename (normalizePath d) = basename (root d @ joinWith [sep] (ns @ [x]))"
  proof (cases "last d = sep")
    case True
    then have "normalizePath d = (root d @ joinWith [sep] (ns @ [x])) @ [sep]"
      by (simp add: normalizePath_eq [OF assms] ns)
    then show ?thesis
      by (simp only: basename_def lastPart_trailing)
  next
    case False
    then show ?thesis by (simp add: normalizePath_eq [OF assms] ns)
  qed
  with b ns show ?thesis by simp
qed

lemma basename_join:
  assumes "d \<noteq> []" "isSegment f"
  shows "basename (join [d, f]) = f"
  using assms root_cases [of d]
  by (simp add: join_segment basename_joined isSegment_def)

lemma basename_dirname_join:
  assumes "d \<noteq> []" "isSegment f"
  shows "basename (dirname (join [d, f])) = basename (normalizePath d)"
proof -
  from assms(2) have f: "f \<noteq> []" "sep \<notin> set f"
    by (simp_all add: isSegment_def)
  have ok: "\<forall>y \<in> set (normalParts d). y \<noteq> [] \<and> sep \<notin> set y"
    using normalParts_parts [of d] by blast
  have dj: "dirname (join [d, f])
      = (if normalParts d = [] then (if root d = [sep] then ''/'' else ''.'')
         else root d @ joinWith [sep] (normalParts d))"
    unfolding join_segment [OF assms] using root_cases [of d] f ok by (intro dirname_joined)
  show ?thesis
  proof (cases "normalParts d = []")
    case True
    have "basename ''/'' = []" "basename ''.'' = ''.''"
      by (simp_all add: basename_def lastPart_def sep_def)
    with True show ?thesis
      by (simp add: dj basename_normalize [OF assms(1)] root_def slash)
  next
    case False
    then obtain ns x where ns: "normalParts d = ns @ [x]"
      by (cases "normalParts d" rule: rev_cases) auto
    have x: "x \<noteq> []" "sep \<notin> set x"
      using ok ns by auto
    have "basename (root d @ joinWith [sep] (ns @ [x])) = x"
      using root_cases [of d] x by (intro basename_joined)
    with False ns show ?thesis
      by (simp add: dj basename_normalize [OF assms(1)])
  qed
qed

lemma join_nonempty: "join xs \<noteq> []"
  by (simp add: join_def Let_def normalizePath_nonempty)

text \<open>A segment joined onto a directory is the last normalized part of the result.\<close>

lemma basename_normalize_join:
  assumes "d \<noteq> []" "isSegment f"
  shows "basename (normalizePath (join [d, f])) = f"
proof -
  let ?x = "join [d, f]"
  from assms(2) have f: "f \<noteq> []" "sep \<notin> set f"
    by (simp_all add: isSegment_def)
  obtain m where m: "?x = m @ f" "m = [] \<or> last m = sep"
    unfolding join_segment [OF assms] using joined_split [OF root_cases] by blast
  have "normalParts ?x \<noteq> [] \<and> last (normalParts ?x) = f"
  proof (cases "m = []")
    case True
    with m f assms(2) have "normalParts ?x = [f]"
      by (simp add: normalParts_def splitPath_segment normalizeString_def normalizeStep_segment)
    then show ?thesis by simp
  next
    case False
    with m obtain m' where m': "m = m' @ [sep]"
      by (cases m rule: rev_cases) auto
    have "splitPath ?x = splitPath m' @ [f]"
      using f by (simp add: m m' splitPath_append_sep splitPath_segment)
    then show ?thesis
      using assms(2) by (simp add: normalParts_def normalizeString_snoc normalizeStep_segment)
  qed
  then show ?thesis
    using basename_normalize [OF join_nonempty, of "[d, f]"] by simp
qed








lemma normalizeString_Cons_empty [simp]: "normalizeString a ([] # xs) = normalizeString a xs"
  by (simp add: normalizeString_def)






section \<open>detectProjectStructure on rebuilt paths\<close>











section \<open>generateTargetFilePath\<close>

lemma last_dot_split:
  assumes "CHR ''.'' \<in> set xs"
  shows "\<exists>pre. xs = pre @ CHR ''.'' # rev (takeWhile (\<lambda>c. c \<noteq> CHR ''.'') (rev xs))"
proof -
  let ?P = "\<lambda>c. c \<noteq> CHR ''.''"
  have "dropWhile ?P (rev xs) \<noteq> []"
    using assms by (auto simp: dropWhile_eq_Nil_conv)
  moreover have "dropWhile ?P (rev xs) \<noteq> [] \<Longrightarrow> hd (dropWhile ?P (rev xs)) = CHR ''.''"
    using hd_dropWhile [of ?P "rev xs"] by blast
  ultimately obtain rest where "dropWhile ?P (rev xs) = CHR ''.'' # rest"
    by (cases "dropWhile ?P (rev xs)") auto
  then have "rev xs = takeWhile ?P (rev xs) @ CHR ''.'' # rest"
    by (metis takeWhile_dropWhile_id)
  then have "xs = rev (takeWhile ?P (rev xs) @ CHR ''.'' # rest)"
    by (metis rev_rev_ident)
  then have "xs = rev rest @ CHR ''.'' # rev (takeWhile ?P (rev xs))"
    by simp
  then show ?thesis by blast
qed

lemma extname_json:
  assumes "extname p = ''.json''"
  shows "\<exists>stem. lastPart p = stem @ ''.json'' \<and> stem \<noteq> []"
proof -
  let ?part = "lastPart p"
  let ?ext = "CHR ''.'' # rev (takeWhile (\<lambda>c. c \<noteq> CHR ''.'') (rev ?part))"
  have dot: "CHR ''.'' \<in> set ?part"
    using assms unfolding extname_def Let_def by (simp split: if_splits)
  then have e: "?ext = ''.json''" and len: "length ?ext \<noteq> length ?part"
    using assms unfolding extname_def Let_def by (simp_all split: if_splits)
  from last_dot_split [OF dot] obtain pre where pre: "?part = pre @ ?ext"
    by blast
  have "pre \<noteq> []"
  proof
    assume "pre = []"
    with pre have "?part = ?ext" by (simp only: append_Nil)
    then have "length ?ext = length ?part" by (rule arg_cong [symmetric])
    with len show False by (simp only: not_True_eq_False)
  qed
  with pre e show ?thesis by metis
qed

lemma length_lastPart: "length (lastPart p) \<le> length p"
proof -
  have "length (takeWhile (\<lambda>c. c \<noteq> sep) (dropWhile (\<lambda>c. c = sep) (rev p)))
        \<le> length (dropWhile (\<lambda>c. c = sep) (rev p))"
    by (rule length_takeWhile_le)
  also have "\<dots> \<le> length (rev p)"
    by (rule length_dropWhile_le)
  finally show ?thesis by (simp add: lastPart_def)
qed

lemma basename_ext_stem:
  assumes "lastPart p = stem @ ''.json''" "stem \<noteq> []"
  shows "basename_ext p ''.json'' = stem"
proof -
  have "length (stem @ ''.json'') \<le> length p"
    using length_lastPart [of p] assms(1) by simp
  then have len: "length ''.json'' \<le> length p" "''.json'' \<noteq> p"
    using assms(2) by auto
  have "endsWith (stem @ ''.json'') ''.json''"
    by (simp add: endsWith_def)
  moreover have "stem @ ''.json'' \<noteq> ''.json''" "stem @ ''.json'' \<noteq> []"
    using assms(2) by simp_all
  ultimately show ?thesis
    using len unfolding basename_ext_def assms(1) Let_def by simp
qed

text \<open>For a source file with the extension \<open>.json\<close>, the stem and the extension of the code are those of the source.\<close>

lemma json_source:
  assumes "extname p = ''.json''"
  shows "basename_ext p ''.json'' @ ''.json'' = basename p"
    and "basename_ext p (extname p) = basename_ext p ''.json''"
    and "basename_ext p ''.json'' \<noteq> []"
    and "sep \<notin> set (basename_ext p ''.json'')"
proof -
  from extname_json [OF assms] obtain stem where s: "lastPart p = stem @ ''.json''" "stem \<noteq> []"
    by blast
  have b: "basename_ext p ''.json'' = stem"
    by (rule basename_ext_stem [OF s])
  show "basename_ext p ''.json'' @ ''.json'' = basename p"
    by (simp add: b s basename_def)
  show "basename_ext p (extname p) = basename_ext p ''.json''"
    by (simp add: assms)
  show "basename_ext p ''.json'' \<noteq> []"
    by (simp add: b s)
  show "sep \<notin> set (basename_ext p ''.json'')"
    using lastPart_sepfree [of p] by (simp add: b s)
qed

lemma targetFilePath_scheme:
  assumes "extname p = ''.json''"
  shows "targetFilePath p lang = schemePath p lang"
proof -
  have "basePath (detectProjectStructure p) = dirname p"
    if "type (detectProjectStructure p) = Unknown"
    using that by (auto simp: detectProjectStructure_def Let_def split: if_splits)
  then show ?thesis
    unfolding targetFilePath_def schemePath_def Let_def json_source(2) [OF assms] assms
    by (simp split: ProjectStructureType.splits)
qed

lemma targetFilePath_names:
  assumes "extname p = ''.json''" "isSegment lang"
  shows "case type (detectProjectStructure p) of
           FolderBased \<Rightarrow> basename (dirname (targetFilePath p lang)) = lang
                           \<and> basename (targetFilePath p lang) = basename p
         | FileBased \<Rightarrow> basename (targetFilePath p lang) = lang @ ''.json''
         | Unknown \<Rightarrow> basename (targetFilePath p lang)
                         = basename_ext p ''.json'' @ ''.'' @ lang @ ''.json''"
proof -
  let ?info = "detectProjectStructure p"
  let ?stem = "basename_ext p ''.json''"
  note j = json_source [OF assms(1)]
  from assms(2) have l: "lang \<noteq> []" "sep \<notin> set lang"
    by (simp_all add: isSegment_def)
  have base: "basePath ?info \<noteq> []"
    using dirname_nonempty by (auto simp: detectProjectStructure_def Let_def)
  have fseg: "isSegment (?stem @ ''.json'')"
    using j(3,4) by (auto simp: isSegment_def sep_def)
  have named: "isSegment (lang @ ''.json'')"
    using l by (auto simp: isSegment_def sep_def)
  have dotted: "isSegment (?stem @ ''.'' @ lang @ ''.json'')"
    using j(3,4) l by (auto simp: isSegment_def sep_def)
  show ?thesis
  proof (cases "type ?info")
    case FolderBased
    let ?dir = "join [basePath ?info, lang]"
    have t: "targetFilePath p lang = join [?dir, ?stem @ ''.json'']"
      by (simp add: targetFilePath_def Let_def FolderBased)
    have "basename (dirname (join [?dir, ?stem @ ''.json''])) = basename (normalizePath ?dir)"
      using join_nonempty fseg by (intro basename_dirname_join)
    also have "\<dots> = lang"
      using base assms(2) by (intro basename_normalize_join)
    finally have "basename (dirname (targetFilePath p lang)) = lang"
      by (simp add: t)
    moreover have "basename (targetFilePath p lang) = basename p"
      using basename_join [OF join_nonempty fseg, of "[basePath ?info, lang]"] j(1)
      by (simp add: t)
    ultimately show ?thesis by (simp add: FolderBased)
  next
    case FileBased
    have "targetFilePath p lang = join [basePath ?info, lang @ ''.json'']"
      by (simp add: targetFilePath_def Let_def FileBased)
    then show ?thesis
      using basename_join [OF base named] by (simp add: FileBased)
  next
    case Unknown
    have "targetFilePath p lang = join [dirname p, ?stem @ ''.'' @ lang @ ''.json'']"
      by (simp add: targetFilePath_def Let_def Unknown)
    then show ?thesis
      using basename_join [OF dirname_nonempty dotted, of p] by (simp add: Unknown)
  qed
qed

text \<open>
  Claim C1, as the code has it.  The code always writes the extension \<open>.json\<close>, so the scheme
  of the specification is what it computes for the source files whose extension is \<open>.json\<close>.
  For those, the path handed to \<open>getUniqueFilePath\<close> is the path of the scheme, built from
  the target language as it is supplied, never from its normalized form.  When the target
  language is a single segment, it is the name of the target folder (folder-based), the name
  of the file before \<open>.json\<close> (file-based), or the part between the stem and \<open>.json\<close> (unknown),
  character for character.
\<close>

theorem generateTargetFilePath_scheme:
  assumes "extname sourceFilePath = ''.json''"
  shows "targetFilePath sourceFilePath targetLanguage = schemePath sourceFilePath targetLanguage
    \<and> generateTargetFilePath h s sourceFilePath targetLanguage
        = (case ensureTargetDir h s sourceFilePath targetLanguage of
             Inl error \<Rightarrow> Some (Inl error)
           | Inr s' \<Rightarrow>
               map_option (\<lambda>uniquePath. Inr (uniquePath, s'))
                 (getUniqueFilePath h s' (schemePath sourceFilePath targetLanguage)))
    \<and> (isSegment targetLanguage \<longrightarrow>
         (case type (detectProjectStructure sourceFilePath) of
            FolderBased \<Rightarrow>
              basename (dirname (targetFilePath sourceFilePath targetLanguage)) = targetLanguage
              \<and> basename (targetFilePath sourceFilePath targetLanguage) = basename sourceFilePath
          | FileBased \<Rightarrow>
              basename (targetFilePath sourceFilePath targetLanguage) = targetLanguage @ ''.json''
          | Unknown \<Rightarrow>
              basename (targetFilePath sourceFilePath targetLanguage)
              = basename_ext sourceFilePath ''.json'' @ ''.'' @ targetLanguage @ ''.json''))"
proof (intro conjI impI)
  show "targetFilePath sourceFilePath targetLanguage = schemePath sourceFilePath targetLanguage"
    by (rule targetFilePath_scheme [OF assms])
  show "generateTargetFilePath h s sourceFilePath targetLanguage
        = (case ensureTargetDir h s sourceFilePath targetLanguage of
             Inl error \<Rightarrow> Some (Inl error)
           | Inr s' \<Rightarrow>
               map_option (\<lambda>uniquePath. Inr (uniquePath, s'))
                 (getUniqueFilePath h s' (schemePath sourceFilePath targetLanguage)))"
    unfolding generateTargetFilePath_def targetFilePath_scheme [OF assms] by (rule refl)
next
  assume "isSegment targetLanguage"
  then show "case type (detectProjectStructure sourceFilePath) of
            FolderBased \<Rightarrow>
              basename (dirname (targetFilePath sourceFilePath targetLanguage)) = targetLanguage
              \<and> basename (targetFilePath sourceFilePath targetLanguage) = basename sourceFilePath
          | FileBased \<Rightarrow>
              basename (targetFilePath sourceFilePath targetLanguage) = targetLanguage @ ''.json''
          | Unknown \<Rightarrow>
              basename (targetFilePath sourceFilePath targetLanguage)
              = basename_ext sourceFilePath ''.json'' @ ''.'' @ targetLanguage @ ''.json''"
    by (rule targetFilePath_names [OF assms])
qed

theorem generateTargetFilePath_scheme_witness:
  "extname ''locales/en/common.json'' = ''.json'' \<and> isSegment ''JA-jp''
   \<and> type (detectProjectStructure ''locales/en/common.json'') = FolderBased
   \<and> schemePath ''locales/en/common.json'' ''JA-jp'' = ''locales/JA-jp/common.json''
   \<and> targetFilePath ''locales/en/common.json'' ''JA-jp'' = ''locales/JA-jp/common.json''
   \<and> basename (dirname (targetFilePath ''locales/en/common.json'' ''JA-jp'')) = ''JA-jp''
   \<and> generateTargetFilePath table_host example_locales ''locales/en/common.json'' ''JA-jp''
       = Some (Inr (''locales/JA-jp/common.json'', example_locales @ [(''locales/JA-jp'', Directory)]))
   \<and> normalizeLanguageCode ''JA-jp'' = ''ja-JP''"
proof -
  have e: "extname ''locales/en/common.json'' = ''.json''" by code_simp
  have g: "isSegment ''JA-jp''" by code_simp
  have t: "type (detectProjectStructure ''locales/en/common.json'') = FolderBased" by code_simp
  have p: "schemePath ''locales/en/common.json'' ''JA-jp'' = ''locales/JA-jp/common.json''"
    by code_simp
  have d: "ensureTargetDir table_host example_locales ''locales/en/common.json'' ''JA-jp''
      = Inr (example_locales @ [(''locales/JA-jp'', Directory)])"
    by code_simp
  have u: "getUniqueFilePath table_host (example_locales @ [(''locales/JA-jp'', Directory)])
             ''locales/JA-jp/common.json'' = Some ''locales/JA-jp/common.json''"
    by code_simp
  have n: "normalizeLanguageCode ''JA-jp'' = ''ja-JP''" by code_simp
  note scheme = generateTargetFilePath_scheme [OF e, of "''JA-jp''" table_host example_locales]
  have a: "targetFilePath ''locales/en/common.json'' ''JA-jp'' = ''locales/JA-jp/common.json''"
    using scheme p by simp
  have b: "generateTargetFilePath table_host example_locales ''locales/en/common.json'' ''JA-jp''
       = Some (Inr (''locales/JA-jp/common.json'', example_locales @ [(''locales/JA-jp'', Directory)]))"
    using scheme by (simp add: d u p)
  have c: "basename (dirname (targetFilePath ''locales/en/common.json'' ''JA-jp'')) = ''JA-jp''"
    using scheme [THEN conjunct2, THEN conjunct2, rule_format, OF g] by (simp add: t)
  show ?thesis
    by (intro conjI e g t p a c b n)
qed

text \<open>
  The claim as the specification states it, for every source path, fails on a source file
  with another extension: the code appends \<open>.json\<close> to the whole file name, and the path of
  the scheme keeps the extension of the source.
\<close>

theorem generateTargetFilePath_extension_counterexample:
  "type (detectProjectStructure ''locales/en/common.txt'') = FolderBased
   \<and> targetFilePath ''locales/en/common.txt'' ''fr'' = ''locales/fr/common.txt.json''
   \<and> schemePath ''locales/en/common.txt'' ''fr'' = ''locales/fr/common.txt''"
  by code_simp

end
